theory Spec2Isabelle
  imports Main
begin

section \<open>Errors and results\<close>

text \<open>
  Every exception of \<open>argparse.h\<close> is a \<open>std::runtime_error\<close> told apart by its message
  only; \<open>std::stol\<close> raises \<open>std::invalid_argument\<close> and \<open>std::out_of_range\<close>.
  One constructor stands for each message.
\<close>

datatype value_type = Null | Bool | Integer | Float | String

datatype registration_fault =
    NamePredefined   \<comment> \<open>"the name \"help\" is predefined."\<close>
  | AfterVarargs     \<comment> \<open>"cannot add any argument after varargs."\<close>

datatype error =
    InvalidArgument                       \<comment> \<open>\<open>std::invalid_argument\<close> of \<open>std::stol\<close>\<close>
  | OutOfRange                            \<comment> \<open>\<open>std::out_of_range\<close> of \<open>std::stol\<close>\<close>
  | NullType                              \<comment> \<open>"argument type is null."\<close>
  | ConversionError value_type            \<comment> \<open>"value is not convertible to ...-type"\<close>
  | WrongArgumentType                     \<comment> \<open>"wrong argument type." of \<open>describe_type\<close>\<close>
  | InsufficientArguments                 \<comment> \<open>"insufficient number of arguments"\<close>
  | RegistrationError registration_fault
  | NotFound                              \<comment> \<open>"argument not found."\<close>
  | ParserNotReady                        \<comment> \<open>"arguments are not parsed."\<close>

text \<open>
  A call returns, throws, or has undefined behaviour: \<open>Undefined\<close> stands for a read
  through the end iterator of a vector or of index 0 of an empty vector. It is not an
  exception and no \<open>catch\<close> sees it.
\<close>

datatype 'a result = Ok 'a | Throw error | Undefined

section \<open>Library functions\<close>

text \<open>
  \<open>std::regex_match(s, std::regex(pat, icase))\<close> for a pattern of plain letters, in the
  "C" locale: the whole of \<open>s\<close> equals \<open>pat\<close> up to the case of ASCII letters.
\<close>

definition tolower :: "char \<Rightarrow> char" where
  "tolower c =
     (case map_of (zip ''ABCDEFGHIJKLMNOPQRSTUVWXYZ'' ''abcdefghijklmnopqrstuvwxyz'') c of
        Some l \<Rightarrow> l
      | None \<Rightarrow> c)"

fun regex_match_icase :: "string \<Rightarrow> string \<Rightarrow> bool" where
  "regex_match_icase [] [] = True"
| "regex_match_icase (c # s) (p # pat) = (tolower c = tolower p \<and> regex_match_icase s pat)"
| "regex_match_icase _ _ = False"

text \<open>
  \<open>std::stol(s)\<close> (base 10, \<open>long\<close> of 64 bits as the \<open>%ld\<close> of \<open>display_status\<close>
  takes it): \<open>strtol\<close> skips white space, reads an optional sign and the longest run of
  decimal digits, and ignores what follows. No digit: \<open>std::invalid_argument\<close>; a value
  outside \<open>long\<close>: \<open>std::out_of_range\<close>.
\<close>

definition isspace :: "char \<Rightarrow> bool" where
  "isspace c = ((of_char c :: nat) = 32 \<or> (9 \<le> (of_char c :: nat) \<and> (of_char c :: nat) \<le> 13))"

definition isdigit :: "char \<Rightarrow> bool" where
  "isdigit c = (48 \<le> (of_char c :: nat) \<and> (of_char c :: nat) \<le> 57)"

definition decimal :: "string \<Rightarrow> int" where
  "decimal ds = foldl (\<lambda>a c. 10 * a + (int (of_char c) - 48)) 0 ds"

definition LONG_MAX :: int where
  "LONG_MAX = 9223372036854775807"

definition LONG_MIN :: int where
  "LONG_MIN = - 9223372036854775808"

definition stol :: "string \<Rightarrow> int result" where
  "stol s =
     (let s1 = dropWhile isspace s;
          neg = (case s1 of [] \<Rightarrow> False | c # _ \<Rightarrow> c = CHR ''-'');
          s2 = (case s1 of [] \<Rightarrow> [] | c # r \<Rightarrow> if c = CHR ''-'' \<or> c = CHR ''+'' then r else s1);
          ds = takeWhile isdigit s2;
          n = (if neg then - decimal ds else decimal ds)
      in if ds = [] then Throw InvalidArgument
         else if n < LONG_MIN \<or> LONG_MAX < n then Throw OutOfRange
         else Ok n)"

section \<open>class value\<close>

record "value" =
  vtype :: value_type
  vvalue :: string

definition convert_bool :: "string \<Rightarrow> bool result" where
  "convert_bool s =
     (if regex_match_icase s ''true'' then Ok True
      else if regex_match_icase s ''false'' then Ok False
      else (case stol s of
              Ok n \<Rightarrow> Ok (n \<noteq> 0)
            | Throw e \<Rightarrow> Throw (ConversionError Bool)
            | Undefined \<Rightarrow> Undefined))"

definition convert_integer :: "string \<Rightarrow> int result" where
  "convert_integer s =
     (case stol s of
        Ok n \<Rightarrow> Ok n
      | Throw e \<Rightarrow> Throw (ConversionError Integer)
      | Undefined \<Rightarrow> Undefined)"

text \<open>
  \<open>convert_float\<close> is \<open>std::stod\<close> under the same \<open>try\<close>. Floating point is outside this
  development: the texts \<open>std::stod\<close> accepts are the parameter \<open>stod_ok\<close> of everything
  that builds a value, and the number it returns is not modelled.
\<close>

definition convert_float :: "(string \<Rightarrow> bool) \<Rightarrow> string \<Rightarrow> unit result" where
  "convert_float stod_ok s = (if stod_ok s then Ok () else Throw (ConversionError Float))"

definition convert_string :: "string \<Rightarrow> string result" where
  "convert_string s = Ok s"

text \<open>
  The constructor \<open>value(type, s)\<close> and \<open>operator=\<close>: store, then
  \<open>assert_argument_type\<close>, which converts once and drops the result.
\<close>

definition assert_argument_type :: "(string \<Rightarrow> bool) \<Rightarrow> value_type \<Rightarrow> string \<Rightarrow> unit result" where
  "assert_argument_type stod_ok ty s =
     (case ty of
        Null \<Rightarrow> Throw NullType
      | Bool \<Rightarrow> (case convert_bool s of Ok _ \<Rightarrow> Ok () | Throw e \<Rightarrow> Throw e | Undefined \<Rightarrow> Undefined)
      | Integer \<Rightarrow> (case convert_integer s of Ok _ \<Rightarrow> Ok () | Throw e \<Rightarrow> Throw e | Undefined \<Rightarrow> Undefined)
      | Float \<Rightarrow> convert_float stod_ok s
      | String \<Rightarrow> (case convert_string s of Ok _ \<Rightarrow> Ok () | Throw e \<Rightarrow> Throw e | Undefined \<Rightarrow> Undefined))"

definition value_new :: "(string \<Rightarrow> bool) \<Rightarrow> value_type \<Rightarrow> string \<Rightarrow> value result" where
  "value_new stod_ok ty s =
     (case assert_argument_type stod_ok ty s of
        Ok _ \<Rightarrow> Ok \<lparr>vtype = ty, vvalue = s\<rparr>
      | Throw e \<Rightarrow> Throw e
      | Undefined \<Rightarrow> Undefined)"

section \<open>Argument classes\<close>

text \<open>
  \<open>abstract_argument\<close> holds the members \<open>_type\<close>, \<open>_nargs\<close>, \<open>_name\<close> and \<open>_comment\<close>;
  \<open>positional_argument\<close> adds nothing, \<open>optional_argument\<close> adds the directives
  \<open>_optseqs\<close>. \<open>_nargs\<close> is an \<open>int16_t\<close> that is only compared with constants and
  counted up to, so an \<open>int\<close> holds it; \<open>variable_args\<close> is \<open>-1\<close>.
\<close>

record abstract_argument =
  atype :: value_type
  nargs :: int
  aname :: string
  comment :: string

type_synonym positional_argument = abstract_argument

record optional_argument = abstract_argument +
  optseqs :: "string list"

definition variable_args :: int where
  "variable_args = - 1"

definition new_positional_argument ::
  "string \<Rightarrow> value_type \<Rightarrow> int \<Rightarrow> string \<Rightarrow> positional_argument" where
  "new_positional_argument name ty n com = \<lparr>atype = ty, nargs = n, aname = name, comment = com\<rparr>"

definition new_optional_argument ::
  "string list \<Rightarrow> string \<Rightarrow> value_type \<Rightarrow> int \<Rightarrow> string \<Rightarrow> optional_argument" where
  "new_optional_argument dirs name ty n com =
     \<lparr>atype = ty, nargs = n, aname = name, comment = com, optseqs = dirs\<rparr>"

text \<open>\<open>optional_argument::operator==(str)\<close>: 1 when a directive equals \<open>str\<close>, else 0.\<close>

fun directive_eq :: "string list \<Rightarrow> string \<Rightarrow> bool" where
  "directive_eq [] str = False"
| "directive_eq (d # ds) str = (if d = str then True else directive_eq ds str)"

definition optional_eq :: "optional_argument \<Rightarrow> string \<Rightarrow> bool" where
  "optional_eq o' str = directive_eq (optseqs o') str"

section \<open>class argparse\<close>

type_synonym "values" = "value list"

type_synonym vmap = "string \<rightharpoonup> values"

text \<open>
  The members of \<open>argparse\<close>; \<open>_nargs\<close> is declared and never read or written.
  \<open>_map.insert\<close> of \<open>std::map\<close> keeps the binding of a key that is already there.
\<close>

record argparse =
  description :: string
  completed :: bool
  varargs :: bool
  appname :: string
  amap :: vmap
  arguments :: "string list"
  positional_parsers :: "positional_argument list"
  optional_parsers :: "optional_argument list"

definition map_insert :: "vmap \<Rightarrow> string \<Rightarrow> values \<Rightarrow> vmap" where
  "map_insert m k v = (case m k of None \<Rightarrow> m(k \<mapsto> v) | Some _ \<Rightarrow> m)"

definition help_option :: optional_argument where
  "help_option = new_optional_argument [''-h'', ''--help''] ''help'' Bool 0 ''Show a help message''"

text \<open>
  The constructor, \<open>argv\<close> being \<open>appname # args\<close> and \<open>nargs\<close> its length.
\<close>

definition argparse_new :: "string \<Rightarrow> string list \<Rightarrow> string \<Rightarrow> bool \<Rightarrow> argparse" where
  "argparse_new app args desc with_help =
     \<lparr>description = desc, completed = False, varargs = False, appname = app,
      amap = Map.empty, arguments = args, positional_parsers = [],
      optional_parsers = (if with_help then [help_option] else [])\<rparr>"

definition set_description :: "argparse \<Rightarrow> string \<Rightarrow> argparse" where
  "set_description p desc = p\<lparr>description := desc\<rparr>"

text \<open>
  \<open>add_argument(name, type, n, com)\<close>; the shorter overloads call it with \<open>n = 1\<close> and
  \<open>com = ""\<close>. An exception leaves the parser as it was.
\<close>

definition add_argument ::
  "argparse \<Rightarrow> string \<Rightarrow> value_type \<Rightarrow> int \<Rightarrow> string \<Rightarrow> argparse result" where
  "add_argument p name ty n com =
     (if name = ''help'' then Throw (RegistrationError NamePredefined)
      else if varargs p then Throw (RegistrationError AfterVarargs)
      else Ok (p\<lparr>varargs := (if n < 0 then True else varargs p),
                positional_parsers := positional_parsers p @ [new_positional_argument name ty n com],
                completed := False\<rparr>))"

text \<open>
  \<open>add_option(dirs, name, type, n, com)\<close> with a vector of directives;
  \<open>add_option(dir, ...)\<close> with one directive builds the vector \<open>[dir]\<close>. The shorter
  overloads call these with \<open>Bool, 0\<close> or with \<open>n = 1\<close>.
\<close>

definition add_option ::
  "argparse \<Rightarrow> string list \<Rightarrow> string \<Rightarrow> value_type \<Rightarrow> int \<Rightarrow> string \<Rightarrow> argparse result" where
  "add_option p dirs name ty n com =
     (if name = ''help'' then Throw (RegistrationError NamePredefined)
      else Ok (p\<lparr>optional_parsers := optional_parsers p @ [new_optional_argument dirs name ty n com],
                completed := False\<rparr>))"

definition add_option1 ::
  "argparse \<Rightarrow> string \<Rightarrow> string \<Rightarrow> value_type \<Rightarrow> int \<Rightarrow> string \<Rightarrow> argparse result" where
  "add_option1 p dir name ty n com =
     (if name = ''help'' then Throw (RegistrationError NamePredefined)
      else Ok (p\<lparr>optional_parsers := optional_parsers p @ [new_optional_argument [dir] name ty n com],
                completed := False\<rparr>))"

section \<open>Value access\<close>

text \<open>
  \<open>get<T>(name)\<close> and \<open>getall<T>(name)\<close>; \<open>conv\<close> is \<open>value::get<T>\<close>, which converts
  the stored text as \<open>T\<close> asks whatever the value's own type. \<open>varr[0]\<close> of an empty
  vector is undefined.
\<close>

definition value_get_bool :: "value \<Rightarrow> bool result" where
  "value_get_bool v = convert_bool (vvalue v)"

definition value_get_int64 :: "value \<Rightarrow> int result" where
  "value_get_int64 v = convert_integer (vvalue v)"

definition value_get_string :: "value \<Rightarrow> string result" where
  "value_get_string v = convert_string (vvalue v)"

definition get :: "(value \<Rightarrow> 'a result) \<Rightarrow> argparse \<Rightarrow> string \<Rightarrow> 'a result" where
  "get conv p name =
     (if \<not> completed p then Throw ParserNotReady
      else (case amap p name of
              None \<Rightarrow> Throw NotFound
            | Some varr \<Rightarrow> (case varr of [] \<Rightarrow> Undefined | v # _ \<Rightarrow> conv v)))"

fun convert_all :: "(value \<Rightarrow> 'a result) \<Rightarrow> values \<Rightarrow> 'a list result" where
  "convert_all conv [] = Ok []"
| "convert_all conv (v # vs) =
     (case conv v of
        Throw e \<Rightarrow> Throw e
      | Undefined \<Rightarrow> Undefined
      | Ok x \<Rightarrow> (case convert_all conv vs of
                   Throw e \<Rightarrow> Throw e
                 | Undefined \<Rightarrow> Undefined
                 | Ok xs \<Rightarrow> Ok (x # xs)))"

definition getall :: "(value \<Rightarrow> 'a result) \<Rightarrow> argparse \<Rightarrow> string \<Rightarrow> 'a list result" where
  "getall conv p name =
     (if \<not> completed p then Throw ParserNotReady
      else (case amap p name of
              None \<Rightarrow> Throw NotFound
            | Some varr \<Rightarrow> convert_all conv varr))"

text \<open>\<open>get<T>(name, dummy)\<close>: any \<open>std::runtime_error\<close> of \<open>get<T>(name)\<close> gives \<open>dummy\<close>.\<close>

definition get_dummy :: "(value \<Rightarrow> 'a result) \<Rightarrow> argparse \<Rightarrow> string \<Rightarrow> 'a \<Rightarrow> 'a result" where
  "get_dummy conv p name dummy =
     (case get conv p name of
        Ok x \<Rightarrow> Ok x
      | Throw e \<Rightarrow> Ok dummy
      | Undefined \<Rightarrow> Undefined)"

definition find_name :: "argparse \<Rightarrow> string \<Rightarrow> bool" where
  "find_name p name = (amap p name \<noteq> None)"

section \<open>Help text\<close>

text \<open>
  \<open>show_help\<close> writes to a stream. What it writes is not modelled, only how it ends:
  \<open>abstract_argument::describe_type\<close> has a name for Integer, Float and String and throws
  "wrong argument type." for Null and Bool, and \<open>show_option\<close> reads \<open>_optseqs[0]\<close>, which
  is undefined for an option without a directive.
\<close>

definition describe_type :: "value_type \<Rightarrow> string result" where
  "describe_type ty =
     (case ty of
        Integer \<Rightarrow> Ok ''integer''
      | Float \<Rightarrow> Ok ''float''
      | String \<Rightarrow> Ok ''string''
      | Null \<Rightarrow> Throw WrongArgumentType
      | Bool \<Rightarrow> Throw WrongArgumentType)"

definition show_option :: "optional_argument \<Rightarrow> unit result" where
  "show_option o' = (case optseqs o' of [] \<Rightarrow> Undefined | d # ds \<Rightarrow> Ok ())"

text \<open>
  \<open>positional_argument::format\<close> only prints. \<open>positional_argument::explain\<close> calls
  \<open>describe_type\<close> for its first \<open>fprintf\<close>, whatever \<open>nargs\<close>.
\<close>

definition positional_explain :: "positional_argument \<Rightarrow> unit result" where
  "positional_explain a =
     (case describe_type (atype a) of
        Ok _ \<Rightarrow> Ok ()
      | Throw e \<Rightarrow> Throw e
      | Undefined \<Rightarrow> Undefined)"

text \<open>
  \<open>optional_argument::format\<close> calls \<open>show_option\<close>; \<open>optional_argument::explain\<close> calls
  \<open>show_option\<close> and then \<open>describe_type\<close> when \<open>nargs\<close> is above 1, 1 or \<open>variable_args\<close>.
\<close>

definition optional_format :: "optional_argument \<Rightarrow> unit result" where
  "optional_format o' = show_option o'"

definition optional_explain :: "optional_argument \<Rightarrow> unit result" where
  "optional_explain o' =
     (case show_option o' of
        Throw e \<Rightarrow> Throw e
      | Undefined \<Rightarrow> Undefined
      | Ok _ \<Rightarrow>
          (if nargs o' \<noteq> 0 \<and> (nargs o' > 1 \<or> nargs o' = 1 \<or> nargs o' = variable_args) then
             (case describe_type (atype o') of
                Ok _ \<Rightarrow> Ok ()
              | Throw e \<Rightarrow> Throw e
              | Undefined \<Rightarrow> Undefined)
           else Ok ()))"

text \<open>A \<open>for\<close> loop over a vector, and one statement after another.\<close>

fun for_each :: "('a \<Rightarrow> unit result) \<Rightarrow> 'a list \<Rightarrow> unit result" where
  "for_each f [] = Ok ()"
| "for_each f (x # xs) =
     (case f x of
        Ok _ \<Rightarrow> for_each f xs
      | Throw e \<Rightarrow> Throw e
      | Undefined \<Rightarrow> Undefined)"

definition and_then :: "unit result \<Rightarrow> unit result \<Rightarrow> unit result" where
  "and_then r s = (case r of Ok _ \<Rightarrow> s | Throw e \<Rightarrow> Throw e | Undefined \<Rightarrow> Undefined)"

text \<open>
  \<open>argparse::format\<close>: the options of \<open>nargs\<close> 0, those of positive \<open>nargs\<close>, the
  positional arguments (which only print), the options of negative \<open>nargs\<close>.
  \<open>argparse::explain\<close>: the positional arguments, then the options.
\<close>

definition argparse_format :: "argparse \<Rightarrow> unit result" where
  "argparse_format p =
     and_then (for_each optional_format (filter (\<lambda>o'. nargs o' = 0) (optional_parsers p)))
       (and_then (for_each optional_format (filter (\<lambda>o'. nargs o' > 0) (optional_parsers p)))
          (for_each optional_format (filter (\<lambda>o'. nargs o' < 0) (optional_parsers p))))"

definition argparse_explain :: "argparse \<Rightarrow> unit result" where
  "argparse_explain p =
     and_then (for_each positional_explain (positional_parsers p))
       (for_each optional_explain (optional_parsers p))"

definition show_help :: "argparse \<Rightarrow> bool \<Rightarrow> unit result" where
  "show_help p simple =
     and_then (argparse_format p) (if simple then Ok () else argparse_explain p)"

section \<open>parse\<close>

text \<open>
  The state of the \<open>try\<close> block of \<open>parse\<close> is the cursor \<open>vp\<close>, here the tokens from
  \<open>vp\<close> to the end, and \<open>_map\<close>. A scan ends, throws with the map as it then is, or
  reads through the end iterator.
\<close>

datatype 'a scan = Done 'a | Failed error vmap | Crashed

definition vtrue :: "values" where
  "vtrue = [\<lparr>vtype = Bool, vvalue = ''true''\<rparr>]"

text \<open>
  Phase 1, \<open>size >= 1\<close>: \<open>size\<close> times \<open>v.push_back(value(type, *vp)); vp++\<close>, with no
  test of \<open>vp\<close> against the end.
\<close>

fun option_values ::
  "(string \<Rightarrow> bool) \<Rightarrow> nat \<Rightarrow> value_type \<Rightarrow> string list \<Rightarrow> (values \<times> string list) result" where
  "option_values stod_ok 0 ty vp = Ok ([], vp)"
| "option_values stod_ok (Suc n) ty [] = Undefined"
| "option_values stod_ok (Suc n) ty (t # vp) =
     (case value_new stod_ok ty t of
        Throw e \<Rightarrow> Throw e
      | Undefined \<Rightarrow> Undefined
      | Ok x \<Rightarrow> (case option_values stod_ok n ty vp of
                   Throw e \<Rightarrow> Throw e
                 | Undefined \<Rightarrow> Undefined
                 | Ok (v, vp') \<Rightarrow> Ok (x # v, vp')))"

text \<open>
  \<open>std::find(_op.begin(), _op.end(), *vp) != _op.end()\<close>: some option of \<open>_op\<close>, the
  matched one included, compares equal to the token by \<open>operator==\<close>.
\<close>

definition registered_directive :: "optional_argument list \<Rightarrow> string \<Rightarrow> bool" where
  "registered_directive op t = (List.find (\<lambda>q. optional_eq q t) op \<noteq> None)"

text \<open>
  Phase 1, \<open>size == variable_args\<close>: up to the end, or to a token that is a registered
  directive.
\<close>

fun option_varargs ::
  "(string \<Rightarrow> bool) \<Rightarrow> optional_argument list \<Rightarrow> value_type \<Rightarrow> string list \<Rightarrow>
     (values \<times> string list) result" where
  "option_varargs stod_ok op ty [] = Ok ([], [])"
| "option_varargs stod_ok op ty (t # vp) =
     (if registered_directive op t then Ok ([], t # vp)
      else (case value_new stod_ok ty t of
              Throw e \<Rightarrow> Throw e
            | Undefined \<Rightarrow> Undefined
            | Ok x \<Rightarrow> (case option_varargs stod_ok op ty vp of
                         Throw e \<Rightarrow> Throw e
                       | Undefined \<Rightarrow> Undefined
                       | Ok (v, vp') \<Rightarrow> Ok (x # v, vp'))))"

text \<open>
  The \<open>for (auto& o : _op)\<close> loop: \<open>os\<close> are the options still to visit, \<open>op\<close> all of
  them. It does not stop at a match: the options after \<open>o\<close> are tried on the token the
  cursor has moved to. A negative \<open>size\<close> other than \<open>variable_args\<close> only moves the
  cursor past the directive.
\<close>

fun option_loop ::
  "(string \<Rightarrow> bool) \<Rightarrow> optional_argument list \<Rightarrow> optional_argument list \<Rightarrow> string list \<Rightarrow>
     vmap \<Rightarrow> bool \<Rightarrow> (string list \<times> vmap \<times> bool) scan" where
  "option_loop stod_ok op [] vp m updated = Done (vp, m, updated)"
| "option_loop stod_ok op (o' # os) [] m updated = Done ([], m, updated)"
| "option_loop stod_ok op (o' # os) (t # vp) m updated =
     (if optional_eq o' t then
        (if nargs o' = 0 then
           option_loop stod_ok op os vp (map_insert m (aname o') vtrue) True
         else if nargs o' \<ge> 1 then
           (case option_values stod_ok (nat (nargs o')) (atype o') vp of
              Throw e \<Rightarrow> Failed e m
            | Undefined \<Rightarrow> Crashed
            | Ok (v, vp') \<Rightarrow> option_loop stod_ok op os vp' (map_insert m (aname o') v) True)
         else if nargs o' = variable_args then
           (case option_varargs stod_ok op (atype o') vp of
              Throw e \<Rightarrow> Failed e m
            | Undefined \<Rightarrow> Crashed
            | Ok (v, vp') \<Rightarrow> option_loop stod_ok op os vp' (map_insert m (aname o') v) True)
         else option_loop stod_ok op os vp m True)
      else option_loop stod_ok op os (t # vp) m updated)"

lemma option_values_length:
  "option_values stod_ok n ty vp = Ok (v, vp') \<Longrightarrow> length vp' \<le> length vp"
  by (induction stod_ok n ty vp arbitrary: v vp' rule: option_values.induct)
     (fastforce split: result.splits)+

lemma option_varargs_length:
  "option_varargs stod_ok op ty vp = Ok (v, vp') \<Longrightarrow> length vp' \<le> length vp"
  by (induction stod_ok op ty vp arbitrary: v vp' rule: option_varargs.induct)
     (fastforce split: result.splits if_splits)+

lemma option_loop_cursor:
  "option_loop stod_ok op os vp m updated = Done (vp', m', updated') \<Longrightarrow>
     length vp' \<le> length vp \<and> (updated \<longrightarrow> updated') \<and>
     (updated' \<and> \<not> updated \<longrightarrow> length vp' < length vp) \<and> (\<not> updated' \<longrightarrow> vp' = vp)"
proof (induction stod_ok op os vp m updated arbitrary: vp' m' updated' rule: option_loop.induct)
  case (1 stod_ok op vp m updated)
  then show ?case by simp
next
  case (2 stod_ok op o' os m updated)
  then show ?case by simp
next
  case (3 stod_ok op o' os t vp m updated)
  show ?case
  proof (cases "optional_eq o' t")
    case False
    with "3.IH"(5) "3.prems" show ?thesis by simp
  next
    case match: True
    consider (zero) "nargs o' = 0" | (fixed) "nargs o' \<ge> 1"
      | (var) "\<not> nargs o' \<ge> 1" "nargs o' \<noteq> 0" "nargs o' = variable_args"
      | (other) "\<not> nargs o' \<ge> 1" "nargs o' \<noteq> 0" "nargs o' \<noteq> variable_args"
      by linarith
    then show ?thesis
    proof cases
      case zero
      with "3.IH"(1)[OF match zero] "3.prems" match show ?thesis by fastforce
    next
      case fixed
      then have nz: "nargs o' \<noteq> 0" by simp
      from "3.prems" match fixed nz obtain v vp1 where
        ov: "option_values stod_ok (nat (nargs o')) (atype o') vp = Ok (v, vp1)" and
        rest: "option_loop stod_ok op os vp1 (map_insert m (aname o') v) True = Done (vp', m', updated')"
        by (auto split: result.splits)
      from "3.IH"(2)[OF match nz fixed ov refl rest] option_values_length[OF ov]
      show ?thesis by auto
    next
      case var
      from "3.prems" match var obtain v vp1 where
        ov: "option_varargs stod_ok op (atype o') vp = Ok (v, vp1)" and
        rest: "option_loop stod_ok op os vp1 (map_insert m (aname o') v) True = Done (vp', m', updated')"
        by (auto split: result.splits)
      from "3.IH"(3)[OF match var(2) var(1) var(3) ov refl rest] option_varargs_length[OF ov]
      show ?thesis by auto
    next
      case other
      with "3.IH"(4)[OF match other(2) other(1) other(3)] "3.prems" match show ?thesis by fastforce
    qed
  qed
qed

text \<open>
  The \<open>while (vp != _arguments.end())\<close> loop of phase 1. A token that no option took is
  pushed to \<open>_remaining\<close>.
\<close>

function phase1 ::
  "(string \<Rightarrow> bool) \<Rightarrow> optional_argument list \<Rightarrow> string list \<Rightarrow> vmap \<Rightarrow> string list \<Rightarrow>
     (vmap \<times> string list) scan" where
  "phase1 stod_ok op [] m remaining = Done (m, remaining)"
| "phase1 stod_ok op (t # vp) m remaining =
     (case option_loop stod_ok op op (t # vp) m False of
        Crashed \<Rightarrow> Crashed
      | Failed e m' \<Rightarrow> Failed e m'
      | Done (vp', m', updated) \<Rightarrow>
          (if updated then phase1 stod_ok op vp' m' remaining
           else (case vp' of
                   [] \<Rightarrow> Crashed
                 | t' # vp'' \<Rightarrow> phase1 stod_ok op vp'' m' (remaining @ [t']))))"
  by pat_completeness auto
termination
  by (relation "measure (\<lambda>(stod_ok, op, vp, m, remaining). length vp)")
     (auto dest!: option_loop_cursor)

text \<open>
  Phase 2, \<open>size >= 1\<close>: the same loop with the test of \<open>vp\<close> against the end before
  each read.
\<close>

fun positional_values ::
  "(string \<Rightarrow> bool) \<Rightarrow> nat \<Rightarrow> value_type \<Rightarrow> string list \<Rightarrow> (values \<times> string list) result" where
  "positional_values stod_ok 0 ty vp = Ok ([], vp)"
| "positional_values stod_ok (Suc n) ty [] = Throw InsufficientArguments"
| "positional_values stod_ok (Suc n) ty (t # vp) =
     (case value_new stod_ok ty t of
        Throw e \<Rightarrow> Throw e
      | Undefined \<Rightarrow> Undefined
      | Ok x \<Rightarrow> (case positional_values stod_ok n ty vp of
                   Throw e \<Rightarrow> Throw e
                 | Undefined \<Rightarrow> Undefined
                 | Ok (v, vp') \<Rightarrow> Ok (x # v, vp')))"

text \<open>Phase 2, \<open>size == variable_args\<close>: every token up to the end.\<close>

fun positional_varargs ::
  "(string \<Rightarrow> bool) \<Rightarrow> value_type \<Rightarrow> string list \<Rightarrow> (values \<times> string list) result" where
  "positional_varargs stod_ok ty [] = Ok ([], [])"
| "positional_varargs stod_ok ty (t # vp) =
     (case value_new stod_ok ty t of
        Throw e \<Rightarrow> Throw e
      | Undefined \<Rightarrow> Undefined
      | Ok x \<Rightarrow> (case positional_varargs stod_ok ty vp of
                   Throw e \<Rightarrow> Throw e
                 | Undefined \<Rightarrow> Undefined
                 | Ok (v, vp') \<Rightarrow> Ok (x # v, vp')))"

text \<open>
  The values one positional argument takes from the cursor: the body of the
  \<open>while (ip != _pp.end())\<close> loop between its first test and \<open>_map.insert\<close>. A \<open>size\<close>
  of 0, or below \<open>variable_args\<close>, takes nothing.
\<close>

definition positional_take ::
  "(string \<Rightarrow> bool) \<Rightarrow> positional_argument \<Rightarrow> string list \<Rightarrow> (values \<times> string list) result" where
  "positional_take stod_ok a vp =
     (if nargs a \<ge> 1 then positional_values stod_ok (nat (nargs a)) (atype a) vp
      else if nargs a = variable_args then positional_varargs stod_ok (atype a) vp
      else Ok ([], vp))"

fun positional_loop ::
  "(string \<Rightarrow> bool) \<Rightarrow> positional_argument list \<Rightarrow> string list \<Rightarrow> vmap \<Rightarrow>
     (vmap \<times> string list) scan" where
  "positional_loop stod_ok [] vp m = Done (m, vp)"
| "positional_loop stod_ok (a # ip) vp m =
     (if vp = [] then Failed InsufficientArguments m
      else (case positional_take stod_ok a vp of
              Throw e \<Rightarrow> Failed e m
            | Undefined \<Rightarrow> Crashed
            | Ok (v, vp') \<Rightarrow> positional_loop stod_ok ip vp' (map_insert m (aname a) v)))"

text \<open>The \<open>try\<close> block up to \<open>_completed = true\<close>: both phases, the second on \<open>_remaining\<close>.\<close>

definition scan_arguments :: "(string \<Rightarrow> bool) \<Rightarrow> argparse \<Rightarrow> vmap scan" where
  "scan_arguments stod_ok p =
     (case phase1 stod_ok (optional_parsers p) (arguments p) (amap p) [] of
        Crashed \<Rightarrow> Crashed
      | Failed e m \<Rightarrow> Failed e m
      | Done (m, remaining) \<Rightarrow>
          (case positional_loop stod_ok (positional_parsers p) remaining m of
             Crashed \<Rightarrow> Crashed
           | Failed e m' \<Rightarrow> Failed e m'
           | Done (m', _) \<Rightarrow> Done m'))"

text \<open>
  How a call of \<open>parse\<close> ends: it returns; it rethrows the exception it caught; an
  exception of \<open>show_help\<close> leaves it, from the handler or after the scan, with the
  parser as it then is; the process exits after \<open>show_help\<close>; or the behaviour is
  undefined.
\<close>

datatype exit_status = EXIT_SUCCESS | EXIT_FAILURE

datatype outcome =
    Returned argparse
  | Rethrown error argparse
  | Raised error argparse
  | Exited exit_status
  | UndefinedBehaviour

text \<open>\<open>show_help(stderr, simple); exit(status);\<close> on the parser \<open>p\<close>.\<close>

definition help_then_exit :: "argparse \<Rightarrow> bool \<Rightarrow> exit_status \<Rightarrow> outcome" where
  "help_then_exit p simple status =
     (case show_help p simple of
        Ok _ \<Rightarrow> Exited status
      | Throw e \<Rightarrow> Raised e p
      | Undefined \<Rightarrow> UndefinedBehaviour)"

definition parse :: "(string \<Rightarrow> bool) \<Rightarrow> bool \<Rightarrow> bool \<Rightarrow> argparse \<Rightarrow> outcome" where
  "parse stod_ok help_on_error show_help_and_exit p =
     (case scan_arguments stod_ok p of
        Crashed \<Rightarrow> UndefinedBehaviour
      | Failed e m \<Rightarrow>
          (if help_on_error then
             (case get_dummy value_get_bool (p\<lparr>amap := m, completed := True\<rparr>) ''help'' False of
                Ok True \<Rightarrow> help_then_exit (p\<lparr>amap := m, completed := True\<rparr>) False EXIT_SUCCESS
              | Ok False \<Rightarrow> help_then_exit (p\<lparr>amap := m, completed := True\<rparr>) True EXIT_FAILURE
              | _ \<Rightarrow> UndefinedBehaviour)
           else Rethrown e (p\<lparr>amap := m\<rparr>))
      | Done m \<Rightarrow>
          (if show_help_and_exit then
             (case get_dummy value_get_bool (p\<lparr>amap := m, completed := True\<rparr>) ''help'' False of
                Ok True \<Rightarrow> help_then_exit (p\<lparr>amap := m, completed := True\<rparr>) False EXIT_SUCCESS
              | Ok False \<Rightarrow> Returned (p\<lparr>amap := m, completed := True\<rparr>)
              | _ \<Rightarrow> UndefinedBehaviour)
           else Returned (p\<lparr>amap := m, completed := True\<rparr>)))"

text \<open>
  The parsers a program can hold: the constructor's, and what registration and \<open>parse\<close>
  make of one it holds, however \<open>parse\<close> is left. A call that throws before it writes
  leaves the parser as it was; after \<open>exit\<close> or undefined behaviour no parser is left.
\<close>

inductive reachable :: "(string \<Rightarrow> bool) \<Rightarrow> argparse \<Rightarrow> argparse \<Rightarrow> bool"
  for stod_ok :: "string \<Rightarrow> bool" and p0 :: argparse where
  reach_new: "reachable stod_ok p0 p0"
| reach_set_description: "reachable stod_ok p0 p \<Longrightarrow> reachable stod_ok p0 (set_description p desc)"
| reach_add_argument:
    "reachable stod_ok p0 p \<Longrightarrow> add_argument p name ty n com = Ok p' \<Longrightarrow> reachable stod_ok p0 p'"
| reach_add_option:
    "reachable stod_ok p0 p \<Longrightarrow> add_option p dirs name ty n com = Ok p' \<Longrightarrow> reachable stod_ok p0 p'"
| reach_add_option1:
    "reachable stod_ok p0 p \<Longrightarrow> add_option1 p dir name ty n com = Ok p' \<Longrightarrow> reachable stod_ok p0 p'"
| reach_parse:
    "reachable stod_ok p0 p \<Longrightarrow> parse stod_ok help_on_error show_help_and_exit p = Returned p' \<Longrightarrow>
       reachable stod_ok p0 p'"
| reach_parse_rethrown:
    "reachable stod_ok p0 p \<Longrightarrow> parse stod_ok help_on_error show_help_and_exit p = Rethrown e p' \<Longrightarrow>
       reachable stod_ok p0 p'"
| reach_parse_raised:
    "reachable stod_ok p0 p \<Longrightarrow> parse stod_ok help_on_error show_help_and_exit p = Raised e p' \<Longrightarrow>
       reachable stod_ok p0 p'"

section \<open>Evaluation\<close>

lemmas registration_defs =
  argparse_new_def help_option_def new_optional_argument_def new_positional_argument_def
  add_argument_def add_option_def add_option1_def set_description_def

lemmas value_defs =
  value_new_def assert_argument_type_def convert_bool_def convert_integer_def
  convert_float_def convert_string_def stol_def isspace_def isdigit_def decimal_def
  LONG_MAX_def LONG_MIN_def tolower_def

lemmas parse_defs =
  parse_def scan_arguments_def positional_take_def optional_eq_def registered_directive_def
  map_insert_def vtrue_def
  variable_args_def get_dummy_def get_def getall_def value_get_bool_def


text \<open>The value \<open>vtrue\<close> of an option without arguments is built without an exception.\<close>

lemma vtrue_built: "value_new stod_ok Bool ''true'' = Ok \<lparr>vtype = Bool, vvalue = ''true''\<rparr>"
  by (simp add: value_defs)

section \<open>Phase 1: an option of fixed arity\<close>

text \<open>
  With fewer than \<open>n\<close> tokens left the loop never throws "insufficient number of
  arguments": it reads through the end once the tokens that are there have converted.
\<close>

lemma option_values_short:
  "length vp < n \<Longrightarrow> option_values stod_ok n ty vp \<noteq> Throw InsufficientArguments"
proof (induction stod_ok n ty vp rule: option_values.induct)
  case (3 stod_ok n ty t vp)
  then show ?case
    by (auto simp: value_defs split: result.splits value_type.splits if_splits)
qed simp_all

lemma option_values_past_end:
  "length vp < n \<Longrightarrow> \<forall>t \<in> set vp. \<exists>x. value_new stod_ok ty t = Ok x \<Longrightarrow>
     option_values stod_ok n ty vp = Undefined"
proof (induction stod_ok n ty vp rule: option_values.induct)
  case (3 stod_ok n ty t vp)
  from "3.prems" obtain x where x: "value_new stod_ok ty t = Ok x" by auto
  from "3.IH"[OF x] "3.prems" have "option_values stod_ok n ty vp = Undefined" by simp
  with x show ?case by simp
qed simp_all

text \<open>
  C1. The claim: in phase 1, a directive of an option of fixed arity \<open>N >= 1\<close> with fewer
  than \<open>N\<close> tokens after it makes \<open>parse\<close> fail with InsufficientArguments, and the scan
  never reads past the end of the raw tokens. The code at the input \<open>--count\<close>, with
  \<open>--count\<close> registered as one Integer: the loop of lines 1033-1035 reads \<open>*vp\<close> at the
  end of \<open>_arguments\<close>, whatever the two flags of \<open>parse\<close>. No exception is thrown there.
\<close>

theorem option_fixed_arity_reads_past_end:
  "\<exists>p. add_option1 (argparse_new ''app'' [''--count''] [] True)
          ''--count'' ''count'' Integer 1 [] = Ok p \<and>
       parse stod_ok help_on_error show_help_and_exit p = UndefinedBehaviour"
  by (simp add: registration_defs parse_defs)

section \<open>The map across calls of parse\<close>

text \<open>
  Nothing in \<open>parse\<close> reads \<open>_map\<close> before \<open>get\<close>, and \<open>insert\<close> leaves a bound name
  alone: a scan that starts from the bindings \<open>m\<close> does what it does from an empty map,
  and ends with \<open>m\<close> laid over the result (\<open>m0 ++ m\<close> takes a name from \<open>m\<close> first).
\<close>

lemma map_insert_add: "map_insert (m1 ++ m) k v = map_insert m1 k v ++ m"
  by (auto simp: map_insert_def map_add_def fun_eq_iff split: option.splits)

lemma map_add_self: "m ++ m = (m :: vmap)"
  by (auto simp: map_add_def fun_eq_iff split: option.splits)

lemma option_loop_add:
  "option_loop stod_ok op os vp (m1 ++ m) updated =
     (case option_loop stod_ok op os vp m1 updated of
        Done (vp', m', updated') \<Rightarrow> Done (vp', m' ++ m, updated')
      | Failed e m' \<Rightarrow> Failed e (m' ++ m)
      | Crashed \<Rightarrow> Crashed)"
  by (induction stod_ok op os vp m1 updated rule: option_loop.induct)
     (simp_all add: map_insert_add split: result.splits)

lemma phase1_add:
  "phase1 stod_ok op vp (m1 ++ m) remaining =
     (case phase1 stod_ok op vp m1 remaining of
        Done (m', r) \<Rightarrow> Done (m' ++ m, r)
      | Failed e m' \<Rightarrow> Failed e (m' ++ m)
      | Crashed \<Rightarrow> Crashed)"
proof (induction stod_ok op vp m1 remaining rule: phase1.induct)
  case (1 stod_ok op m remaining)
  then show ?case by simp
next
  case (2 stod_ok op t vp m1 remaining)
  show ?case
  proof (cases "option_loop stod_ok op op (t # vp) m1 False")
    case (Done x)
    obtain vp' m' updated where x: "x = (vp', m', updated)" by (cases x)
    show ?thesis
    proof (cases updated)
      case True
      with 2(1)[OF Done x[symmetric] refl True] Done x show ?thesis
        by (simp add: option_loop_add)
    next
      case False
      show ?thesis
      proof (cases vp')
        case Nil
        with Done x False show ?thesis by (simp add: option_loop_add)
      next
        case (Cons t' vp'')
        with 2(2)[OF Done x[symmetric] refl False Cons] Done x False show ?thesis
          by (simp add: option_loop_add)
      qed
    qed
  qed (simp_all add: option_loop_add)
qed

lemma positional_loop_add:
  "positional_loop stod_ok ip vp (m1 ++ m) =
     (case positional_loop stod_ok ip vp m1 of
        Done (m', r) \<Rightarrow> Done (m' ++ m, r)
      | Failed e m' \<Rightarrow> Failed e (m' ++ m)
      | Crashed \<Rightarrow> Crashed)"
  by (induction ip arbitrary: vp m1) (simp_all add: map_insert_add split: result.splits)

lemma scan_arguments_add:
  "scan_arguments stod_ok p =
     (case scan_arguments stod_ok (p\<lparr>amap := Map.empty\<rparr>) of
        Done m0 \<Rightarrow> Done (m0 ++ amap p)
      | Failed e m0 \<Rightarrow> Failed e (m0 ++ amap p)
      | Crashed \<Rightarrow> Crashed)"
  using phase1_add[of stod_ok "optional_parsers p" "arguments p" Map.empty "amap p" "[]"]
  by (auto simp: scan_arguments_def positional_loop_add split: scan.splits)

lemma scan_arguments_cong:
  "optional_parsers q = optional_parsers p \<Longrightarrow> positional_parsers q = positional_parsers p \<Longrightarrow>
   arguments q = arguments p \<Longrightarrow> amap q = amap p \<Longrightarrow>
   scan_arguments stod_ok q = scan_arguments stod_ok p"
  by (simp add: scan_arguments_def split: scan.splits)

lemma parse_Returned:
  "parse stod_ok help_on_error show_help_and_exit p = Returned p' \<Longrightarrow>
     \<exists>m. scan_arguments stod_ok p = Done m \<and> p' = p\<lparr>amap := m, completed := True\<rparr>"
  by (auto simp: parse_def help_then_exit_def
      split: scan.splits if_splits result.splits bool.splits)

lemma parse_Rethrown:
  "parse stod_ok help_on_error show_help_and_exit p = Rethrown e p' \<Longrightarrow>
     \<not> help_on_error \<and> (\<exists>m. scan_arguments stod_ok p = Failed e m \<and> p' = p\<lparr>amap := m\<rparr>)"
  by (auto simp: parse_def help_then_exit_def
      split: scan.splits if_splits result.splits bool.splits)

lemma parse_Raised:
  "parse stod_ok help_on_error show_help_and_exit p = Raised e p' \<Longrightarrow>
     \<exists>m. p' = p\<lparr>amap := m, completed := True\<rparr>"
  by (auto simp: parse_def help_then_exit_def
      split: scan.splits if_splits result.splits bool.splits)

lemma scan_arguments_fresh:
  assumes "scan_arguments stod_ok p = Done m"
    and "optional_parsers q = optional_parsers p" "positional_parsers q = positional_parsers p"
    and "arguments q = arguments p" "amap q = Map.empty"
  shows "\<exists>m0. scan_arguments stod_ok q = Done m0 \<and> m = m0 ++ amap p"
proof -
  have "scan_arguments stod_ok q = scan_arguments stod_ok (p\<lparr>amap := Map.empty\<rparr>)"
    using assms(2-5) by (intro scan_arguments_cong) simp_all
  with assms(1) scan_arguments_add[of stod_ok p] show ?thesis
    by (auto split: scan.splits)
qed

subsection \<open>A parser that is parsed, extended and parsed again\<close>

text \<open>
  No example below holds a Float, so an \<open>std::stod\<close> that accepts nothing serves.
\<close>

definition no_float :: "string \<Rightarrow> bool" where
  "no_float s = False"

text \<open>
  \<open>argv = app -v b\<close> without the help option, and one String \<open>x\<close>; \<open>parse\<close>; then
  \<open>add_option("-v", "verbose")\<close>; \<open>parse\<close> again. Beside it the same registrations with
  no \<open>parse\<close> in between.
\<close>

definition rerun_registered :: argparse where
  "rerun_registered =
     (argparse_new ''app'' [''-v'', ''b''] [] False)
       \<lparr>positional_parsers := [new_positional_argument ''x'' String 1 []]\<rparr>"

definition rerun_parsed :: argparse where
  "rerun_parsed =
     rerun_registered\<lparr>amap := [''x'' \<mapsto> [\<lparr>vtype = String, vvalue = ''-v''\<rparr>]], completed := True\<rparr>"

definition rerun_extended :: argparse where
  "rerun_extended =
     rerun_parsed\<lparr>optional_parsers := [new_optional_argument [''-v''] ''verbose'' Bool 0 []],
                  completed := False\<rparr>"

definition rerun_final :: argparse where
  "rerun_final =
     rerun_extended\<lparr>amap := [''x'' \<mapsto> [\<lparr>vtype = String, vvalue = ''-v''\<rparr>], ''verbose'' \<mapsto> vtrue],
                    completed := True\<rparr>"

definition fresh_extended :: argparse where
  "fresh_extended =
     rerun_registered\<lparr>optional_parsers := [new_optional_argument [''-v''] ''verbose'' Bool 0 []]\<rparr>"

definition fresh_final :: argparse where
  "fresh_final =
     fresh_extended\<lparr>amap := [''verbose'' \<mapsto> vtrue, ''x'' \<mapsto> [\<lparr>vtype = String, vvalue = ''b''\<rparr>]],
                    completed := True\<rparr>"

lemmas rerun_defs =
  rerun_registered_def rerun_parsed_def rerun_extended_def rerun_final_def no_float_def

lemmas fresh_defs = fresh_extended_def fresh_final_def

lemma rerun_registration:
  "add_argument (argparse_new ''app'' [''-v'', ''b''] [] False) ''x'' String 1 [] = Ok rerun_registered"
  "add_option1 rerun_parsed ''-v'' ''verbose'' Bool 0 [] = Ok rerun_extended"
  by (simp_all add: rerun_defs registration_defs)

lemma fresh_registration:
  "add_option1 rerun_registered ''-v'' ''verbose'' Bool 0 [] = Ok fresh_extended"
  by (simp add: rerun_defs fresh_defs registration_defs)

lemma rerun_same_registrations:
  "optional_parsers fresh_extended = optional_parsers rerun_extended"
  "positional_parsers fresh_extended = positional_parsers rerun_extended"
  "arguments fresh_extended = arguments rerun_extended"
  "amap fresh_extended = Map.empty"
  by (simp_all add: rerun_defs fresh_defs registration_defs)

lemma rerun_first_parse:
  "parse no_float False False rerun_registered = Returned rerun_parsed"
  by (simp add: rerun_defs registration_defs parse_defs value_defs)

lemma rerun_second_parse:
  "parse no_float False False rerun_extended = Returned rerun_final"
  by (simp add: rerun_defs registration_defs parse_defs value_defs)

lemma fresh_parse:
  "parse no_float False False fresh_extended = Returned fresh_final"
  by (simp add: rerun_defs fresh_defs registration_defs parse_defs value_defs fun_upd_twist)

lemma rerun_bindings:
  "amap rerun_final ''x'' = Some [\<lparr>vtype = String, vvalue = ''-v''\<rparr>]"
  "amap fresh_final ''x'' = Some [\<lparr>vtype = String, vvalue = ''b''\<rparr>]"
  by (simp_all add: rerun_defs fresh_defs)

text \<open>
  C3. The claim: each call of \<open>parse\<close> rebuilds the map, so that after a successful
  parse it depends only on the registered specifications and the raw tokens and holds
  nothing of an earlier call. Against it: \<open>rerun_extended\<close> and \<open>fresh_extended\<close> hold the
  same specifications and tokens, both parses succeed, and \<open>x\<close> is bound to \<open>-v\<close> in the
  one, from the first call of \<open>parse\<close>, and to \<open>b\<close> in the other.
\<close>

theorem parse_keeps_earlier_bindings:
  "add_argument (argparse_new ''app'' [''-v'', ''b''] [] False) ''x'' String 1 [] = Ok rerun_registered \<and>
   parse no_float False False rerun_registered = Returned rerun_parsed \<and>
   add_option1 rerun_parsed ''-v'' ''verbose'' Bool 0 [] = Ok rerun_extended \<and>
   add_option1 rerun_registered ''-v'' ''verbose'' Bool 0 [] = Ok fresh_extended \<and>
   optional_parsers fresh_extended = optional_parsers rerun_extended \<and>
   positional_parsers fresh_extended = positional_parsers rerun_extended \<and>
   arguments fresh_extended = arguments rerun_extended \<and>
   parse no_float False False rerun_extended = Returned rerun_final \<and>
   parse no_float False False fresh_extended = Returned fresh_final \<and>
   amap rerun_final ''x'' = Some [\<lparr>vtype = String, vvalue = ''-v''\<rparr>] \<and>
   amap fresh_final ''x'' = Some [\<lparr>vtype = String, vvalue = ''b''\<rparr>] \<and>
   amap rerun_final \<noteq> amap fresh_final"
proof -
  have "amap rerun_final ''x'' \<noteq> amap fresh_final ''x''"
    by (simp add: rerun_bindings)
  then have "amap rerun_final \<noteq> amap fresh_final" by metis
  then show ?thesis
    by (simp add: rerun_registration fresh_registration rerun_same_registrations
        rerun_first_parse rerun_second_parse fresh_parse rerun_bindings)
qed

text \<open>
  C3, as the code has it: \<open>parse\<close> never clears \<open>_map\<close>. A successful parse of \<open>p\<close> leaves
  the map that the same specifications and tokens give from an empty map (the parser
  \<open>q\<close>), with the bindings \<open>p\<close> had before the call laid over it: a name bound before the
  call keeps its values. Only from an empty map is the result a function of the
  specifications and the tokens alone.
\<close>

theorem parse_merges_into_map:
  assumes "parse stod_ok help_on_error show_help_and_exit p = Returned p'"
    and "optional_parsers q = optional_parsers p" "positional_parsers q = positional_parsers p"
    and "arguments q = arguments p" "amap q = Map.empty"
  shows "\<exists>m0. scan_arguments stod_ok q = Done m0 \<and> amap p' = m0 ++ amap p"
proof -
  from parse_Returned[OF assms(1)] obtain m where
    "scan_arguments stod_ok p = Done m" "p' = p\<lparr>amap := m, completed := True\<rparr>" by blast
  with scan_arguments_fresh[OF this(1) assms(2-5)] show ?thesis by auto
qed

theorem parse_merges_into_map_witness:
  "parse no_float False False rerun_extended = Returned rerun_final \<and>
   optional_parsers fresh_extended = optional_parsers rerun_extended \<and>
   positional_parsers fresh_extended = positional_parsers rerun_extended \<and>
   arguments fresh_extended = arguments rerun_extended \<and>
   amap fresh_extended = Map.empty \<and>
   (\<exists>m0. scan_arguments no_float fresh_extended = Done m0 \<and>
         amap rerun_final = m0 ++ amap rerun_extended)"
  using parse_merges_into_map[OF rerun_second_parse rerun_same_registrations]
  by (simp add: rerun_second_parse rerun_same_registrations)

text \<open>
  C9. Two calls of \<open>parse\<close> in a row on one parser, both returning: every \<open>insert\<close> of
  the second call finds its name bound by the first, so the map after the second call
  is the map after the first.
\<close>

theorem parse_twice_same_map:
  assumes "parse stod_ok help_on_error show_help_and_exit p = Returned p1"
    and "parse stod_ok help_on_error' show_help_and_exit' p1 = Returned p2"
  shows "amap p2 = amap p1"
proof -
  from parse_Returned[OF assms(1)] obtain m1 where
    s1: "scan_arguments stod_ok p = Done m1" and p1: "p1 = p\<lparr>amap := m1, completed := True\<rparr>"
    by blast
  from parse_Returned[OF assms(2)] obtain m2 where
    s2: "scan_arguments stod_ok p1 = Done m2" and p2: "p2 = p1\<lparr>amap := m2, completed := True\<rparr>"
    by blast
  from scan_arguments_fresh[OF s1, of "p\<lparr>amap := Map.empty\<rparr>"] obtain m0 where
    s0: "scan_arguments stod_ok (p\<lparr>amap := Map.empty\<rparr>) = Done m0" and m1: "m1 = m0 ++ amap p"
    by auto
  from scan_arguments_fresh[OF s2, of "p\<lparr>amap := Map.empty\<rparr>"] p1 s0
  have "m2 = m0 ++ m1" by auto
  with m1 have "m2 = m1" by (simp add: map_add_self)
  with p1 p2 show ?thesis by simp
qed

theorem parse_twice_same_map_witness:
  "parse no_float False False rerun_extended = Returned rerun_final \<and>
   parse no_float False True rerun_final = Returned rerun_final \<and>
   amap rerun_final = amap rerun_final"
proof -
  have again: "parse no_float False True rerun_final = Returned rerun_final"
    by (simp add: rerun_defs registration_defs parse_defs value_defs)
  from parse_twice_same_map[OF rerun_second_parse again] rerun_second_parse again
  show ?thesis by simp
qed

section \<open>Registration\<close>

text \<open>
  What registration keeps true of a parser: \<open>_varargs\<close> is set exactly when a positional
  argument of negative \<open>nargs\<close> is registered, and such an argument is the last one.
\<close>

definition registration_inv :: "argparse \<Rightarrow> bool" where
  "registration_inv p =
     ((varargs p \<longleftrightarrow> (\<exists>a \<in> set (positional_parsers p). nargs a < 0)) \<and>
      (\<forall>i < length (positional_parsers p).
         nargs (positional_parsers p ! i) < 0 \<longrightarrow> Suc i = length (positional_parsers p)))"

lemma registration_inv_new: "registration_inv (argparse_new app args desc with_help)"
  by (simp add: registration_inv_def argparse_new_def)

lemma registration_inv_add_argument:
  assumes "registration_inv p" "add_argument p name ty n com = Ok p'"
  shows "registration_inv p'"
proof -
  from assms(2) have nv: "\<not> varargs p"
    and p': "p' = p\<lparr>varargs := (if n < 0 then True else varargs p),
                positional_parsers := positional_parsers p @ [new_positional_argument name ty n com],
                completed := False\<rparr>"
    by (auto simp: add_argument_def split: if_splits)
  from assms(1) nv have none: "\<forall>a \<in> set (positional_parsers p). \<not> nargs a < 0"
    by (simp add: registration_inv_def)
  show ?thesis
    unfolding registration_inv_def p'
    using none nv
    by (auto simp: new_positional_argument_def nth_append less_Suc_eq)
qed

lemma registration_inv_amap_completed:
  "registration_inv (p\<lparr>amap := m, completed := c\<rparr>) = registration_inv p"
  "registration_inv (p\<lparr>amap := m\<rparr>) = registration_inv p"
  by (simp_all add: registration_inv_def)

lemma reachable_registration_inv:
  "reachable stod_ok p0 p \<Longrightarrow> registration_inv p0 \<Longrightarrow> registration_inv p"
proof (induction rule: reachable.induct)
  case reach_new
  then show ?case by simp
next
  case (reach_set_description p desc)
  then show ?case by (simp add: registration_inv_def set_description_def)
next
  case (reach_add_argument p name ty n com p')
  then show ?case using registration_inv_add_argument by blast
next
  case (reach_add_option p dirs name ty n com p')
  then show ?case by (auto simp: registration_inv_def add_option_def split: if_splits)
next
  case (reach_add_option1 p dir name ty n com p')
  then show ?case by (auto simp: registration_inv_def add_option1_def split: if_splits)
next
  case (reach_parse p help_on_error show_help_and_exit p')
  then show ?case by (auto dest!: parse_Returned simp: registration_inv_amap_completed)
next
  case (reach_parse_rethrown p help_on_error show_help_and_exit e p')
  then show ?case by (auto dest!: parse_Rethrown simp: registration_inv_amap_completed)
next
  case (reach_parse_raised p help_on_error show_help_and_exit e p')
  then show ?case by (auto dest!: parse_Raised simp: registration_inv_amap_completed)
qed

text \<open>
  \<open>argv = app alice 1 2 3\<close> with the positional arguments \<open>name\<close>, one String, and
  \<open>nums\<close>, Integers of variable number.
\<close>

definition varargs_registered :: argparse where
  "varargs_registered =
     (argparse_new ''app'' [''alice'', ''1'', ''2'', ''3''] [] True)
       \<lparr>varargs := True,
        positional_parsers := [new_positional_argument ''name'' String 1 [],
                               new_positional_argument ''nums'' Integer variable_args []]\<rparr>"

lemma varargs_registered_reachable:
  "reachable no_float (argparse_new ''app'' [''alice'', ''1'', ''2'', ''3''] [] True) varargs_registered"
proof -
  let ?p0 = "argparse_new ''app'' [''alice'', ''1'', ''2'', ''3''] [] True"
  let ?p1 = "?p0\<lparr>positional_parsers := [new_positional_argument ''name'' String 1 []]\<rparr>"
  have "add_argument ?p0 ''name'' String 1 [] = Ok ?p1"
    by (simp add: registration_defs)
  then have r1: "reachable no_float ?p0 ?p1"
    by (rule reach_add_argument[OF reach_new])
  have "add_argument ?p1 ''nums'' Integer variable_args [] = Ok varargs_registered"
    by (simp add: registration_defs varargs_registered_def variable_args_def)
  then show ?thesis
    by (rule reach_add_argument[OF r1])
qed

lemma filter_only_last:
  assumes "\<forall>i < length xs. P (xs ! i) \<longrightarrow> Suc i = length xs"
  shows "length (filter P xs) \<le> 1"
proof (cases xs rule: rev_cases)
  case Nil
  then show ?thesis by simp
next
  case (snoc ys y)
  have "\<not> P a" if "a \<in> set ys" for a
  proof
    assume "P a"
    from that obtain i where i: "i < length ys" "ys ! i = a" by (auto simp: in_set_conv_nth)
    with assms[rule_format, of i] snoc \<open>P a\<close> show False by (simp add: nth_append)
  qed
  then have "filter P ys = []" by (simp add: filter_empty_conv)
  with snoc show ?thesis by simp
qed

text \<open>
  C6. On every parser a program can hold: once a positional argument of variable arity
  is registered, \<open>add_argument\<close> throws a registration error whatever it is given; a
  positional argument of variable arity is the last registered one; and there is at
  most one.
\<close>

theorem varargs_positional_is_last:
  assumes "reachable stod_ok (argparse_new app args desc with_help) p"
  shows "((\<exists>a \<in> set (positional_parsers p). nargs a = variable_args) \<longrightarrow>
            (\<exists>r. add_argument p name ty n com = Throw (RegistrationError r))) \<and>
         (\<forall>i < length (positional_parsers p).
            nargs (positional_parsers p ! i) = variable_args \<longrightarrow> Suc i = length (positional_parsers p)) \<and>
         length (filter (\<lambda>a. nargs a = variable_args) (positional_parsers p)) \<le> 1"
proof -
  from reachable_registration_inv[OF assms registration_inv_new]
  have inv: "registration_inv p" .
  then have last: "\<forall>i < length (positional_parsers p).
      nargs (positional_parsers p ! i) = variable_args \<longrightarrow> Suc i = length (positional_parsers p)"
    by (simp add: registration_inv_def variable_args_def)
  from inv have "(\<exists>a \<in> set (positional_parsers p). nargs a = variable_args) \<longrightarrow> varargs p"
    by (fastforce simp: registration_inv_def variable_args_def)
  then have "(\<exists>a \<in> set (positional_parsers p). nargs a = variable_args) \<longrightarrow>
      (\<exists>r. add_argument p name ty n com = Throw (RegistrationError r))"
    by (simp add: add_argument_def)
  with last filter_only_last[OF last] show ?thesis by blast
qed

theorem varargs_positional_is_last_witness:
  "reachable no_float (argparse_new ''app'' [''alice'', ''1'', ''2'', ''3''] [] True) varargs_registered \<and>
   (\<exists>a \<in> set (positional_parsers varargs_registered). nargs a = variable_args) \<and>
   (\<exists>r. add_argument varargs_registered ''more'' String 1 [] = Throw (RegistrationError r)) \<and>
   nargs (positional_parsers varargs_registered ! 1) = variable_args \<and>
   Suc 1 = length (positional_parsers varargs_registered) \<and>
   length (filter (\<lambda>a. nargs a = variable_args) (positional_parsers varargs_registered)) \<le> 1"
  using varargs_positional_is_last[OF varargs_registered_reachable, of "''more''" String 1 "[]"]
    varargs_registered_reachable
  by (simp add: varargs_registered_def registration_defs variable_args_def)

text \<open>
  The names on a parser built with \<open>with_help\<close>: no positional argument is called
  \<open>help\<close>, and the options are the constructor's help option, if any, followed by options
  of other names.
\<close>

definition names_inv :: "bool \<Rightarrow> argparse \<Rightarrow> bool" where
  "names_inv with_help p =
     ((\<forall>a \<in> set (positional_parsers p). aname a \<noteq> ''help'') \<and>
      (\<exists>us. optional_parsers p = (if with_help then [help_option] else []) @ us \<and>
            (\<forall>o' \<in> set us. aname o' \<noteq> ''help'')))"

lemma names_inv_amap_completed:
  "names_inv w (p\<lparr>amap := m, completed := c\<rparr>) = names_inv w p"
  "names_inv w (p\<lparr>amap := m\<rparr>) = names_inv w p"
  by (simp_all add: names_inv_def)

lemma names_inv_add_option:
  assumes "names_inv w p" "name \<noteq> ''help''"
  shows "names_inv w (p\<lparr>optional_parsers := optional_parsers p @ [new_optional_argument dirs name ty n com],
                completed := False\<rparr>)"
proof -
  from assms(1) obtain us where
    us: "optional_parsers p = (if w then [help_option] else []) @ us" "\<forall>o' \<in> set us. aname o' \<noteq> ''help''"
    and pos: "\<forall>a \<in> set (positional_parsers p). aname a \<noteq> ''help''"
    by (auto simp: names_inv_def)
  let ?us = "us @ [new_optional_argument dirs name ty n com]"
  have "optional_parsers p @ [new_optional_argument dirs name ty n com] = (if w then [help_option] else []) @ ?us"
    using us(1) by simp
  moreover have "\<forall>o' \<in> set ?us. aname o' \<noteq> ''help''"
    using us(2) assms(2) by (auto simp: new_optional_argument_def)
  ultimately show ?thesis
    unfolding names_inv_def using pos by (simp del: append_assoc)
qed

lemma reachable_names_inv:
  "reachable stod_ok (argparse_new app args desc with_help) p \<Longrightarrow> names_inv with_help p"
proof (induction rule: reachable.induct)
  case reach_new
  show ?case by (simp add: names_inv_def argparse_new_def)
next
  case (reach_set_description p desc)
  then show ?case by (simp add: names_inv_def set_description_def)
next
  case (reach_add_argument p name ty n com p')
  then show ?case
    by (auto simp: names_inv_def add_argument_def new_positional_argument_def split: if_splits)
next
  case (reach_add_option p dirs name ty n com p')
  then show ?case
    using names_inv_add_option[of with_help p name dirs ty n com]
    by (auto simp: add_option_def split: if_splits)
next
  case (reach_add_option1 p dir name ty n com p')
  then show ?case
    using names_inv_add_option[of with_help p name "[dir]" ty n com]
    by (auto simp: add_option1_def split: if_splits)
next
  case (reach_parse p help_on_error show_help_and_exit p')
  then show ?case by (auto dest!: parse_Returned simp: names_inv_amap_completed)
next
  case (reach_parse_rethrown p help_on_error show_help_and_exit e p')
  then show ?case by (auto dest!: parse_Rethrown simp: names_inv_amap_completed)
next
  case (reach_parse_raised p help_on_error show_help_and_exit e p')
  then show ?case by (auto dest!: parse_Raised simp: names_inv_amap_completed)
qed

lemma rerun_parsed_reachable:
  "reachable no_float (argparse_new ''app'' [''-v'', ''b''] [] False) rerun_parsed"
  by (rule reach_parse[OF reach_add_argument[OF reach_new]])
     (rule rerun_registration rerun_first_parse)+

lemma rerun_extended_reachable:
  "reachable no_float (argparse_new ''app'' [''-v'', ''b''] [] False) rerun_extended"
  by (rule reach_add_option1[OF rerun_parsed_reachable]) (rule rerun_registration)

text \<open>
  C10. \<open>add_argument\<close> and both forms of \<open>add_option\<close> throw on the name \<open>help\<close> whatever
  the parser, so on every parser a program can hold, built with or without the help
  option, no registered argument is called \<open>help\<close> but the constructor's own option.
\<close>

theorem help_name_is_reserved:
  "add_argument p ''help'' ty n com = Throw (RegistrationError NamePredefined) \<and>
   add_option p dirs ''help'' ty n com = Throw (RegistrationError NamePredefined) \<and>
   add_option1 p dir ''help'' ty n com = Throw (RegistrationError NamePredefined) \<and>
   (reachable stod_ok (argparse_new app args desc with_help) q \<longrightarrow>
      (\<forall>a \<in> set (positional_parsers q). aname a \<noteq> ''help'') \<and>
      (\<exists>us. optional_parsers q = (if with_help then [help_option] else []) @ us \<and>
            (\<forall>o' \<in> set us. aname o' \<noteq> ''help'')))"
  using reachable_names_inv[of stod_ok app args desc with_help q]
  by (simp add: add_argument_def add_option_def add_option1_def names_inv_def)

theorem help_name_is_reserved_witness:
  "reachable no_float (argparse_new ''app'' [''-v'', ''b''] [] False) rerun_extended \<and>
   add_argument rerun_extended ''help'' Bool 0 [] = Throw (RegistrationError NamePredefined) \<and>
   add_option rerun_extended [''-h'', ''--help''] ''help'' Bool 0 [] =
     Throw (RegistrationError NamePredefined) \<and>
   add_option1 rerun_extended ''-h'' ''help'' Bool 0 [] = Throw (RegistrationError NamePredefined) \<and>
   ''help'' \<notin> aname ` set (positional_parsers rerun_extended) \<and>
   (\<exists>us. optional_parsers rerun_extended = [] @ us \<and> ''help'' \<notin> aname ` set us)"
proof -
  note reserved = help_name_is_reserved[where p = rerun_extended and ty = Bool and n = 0
      and com = "[]" and dirs = "[''-h'', ''--help'']" and dir = "''-h''"
      and q = rerun_extended and stod_ok = no_float
      and app = "''app''" and args = "[''-v'', ''b'']" and desc = "[]" and with_help = False]
  from reserved rerun_extended_reachable
  have pos: "\<forall>a \<in> set (positional_parsers rerun_extended). aname a \<noteq> ''help''"
    and opt: "\<exists>us. optional_parsers rerun_extended = [] @ us \<and> (\<forall>o' \<in> set us. aname o' \<noteq> ''help'')"
    by simp_all
  from pos have pos': "''help'' \<notin> aname ` set (positional_parsers rerun_extended)"
    by force
  from opt have opt': "\<exists>us. optional_parsers rerun_extended = [] @ us \<and> ''help'' \<notin> aname ` set us"
    by force
  from reserved rerun_extended_reachable pos' opt' show ?thesis
    by blast
qed

section \<open>Queries before a completed parse\<close>

lemma queries_not_ready:
  "\<not> completed p \<Longrightarrow>
     get conv p name = Throw ParserNotReady \<and> getall conv p name = Throw ParserNotReady"
  by (simp add: get_def getall_def)








section \<open>Phase 2\<close>

lemma positional_loop_append:
  "positional_loop stod_ok (pre @ post) vp m =
     (case positional_loop stod_ok pre vp m of
        Done (m1, vp1) \<Rightarrow> positional_loop stod_ok post vp1 m1
      | Failed e m' \<Rightarrow> Failed e m'
      | Crashed \<Rightarrow> Crashed)"
  by (induction pre arbitrary: vp m) (simp_all split: result.splits)

lemma positional_varargs_all:
  "positional_varargs stod_ok ty vp = Ok (v, vp') \<Longrightarrow> length v = length vp \<and> vp' = []"
  by (induction vp arbitrary: v) (auto split: result.splits)

text \<open>
  \<open>argv = app alice\<close> with the same two positional arguments: \<open>name\<close> takes the only
  token.
\<close>

definition short_input :: argparse where
  "short_input =
     (argparse_new ''app'' [''alice''] [] True)
       \<lparr>varargs := True,
        positional_parsers := [new_positional_argument ''name'' String 1 [],
                               new_positional_argument ''nums'' Integer variable_args []]\<rparr>"

lemma short_input_scan:
  "phase1 no_float (optional_parsers short_input) (arguments short_input) (amap short_input) [] =
     Done (Map.empty, [''alice''])"
  "positional_parsers short_input =
     [new_positional_argument ''name'' String 1 []] @
     new_positional_argument ''nums'' Integer variable_args [] # []"
  "positional_loop no_float [new_positional_argument ''name'' String 1 []] [''alice''] Map.empty =
     Done ([''name'' \<mapsto> [\<lparr>vtype = String, vvalue = ''alice''\<rparr>]], [])"
  by (simp_all add: short_input_def registration_defs parse_defs value_defs)

lemma nums_scan:
  "positional_loop no_float [new_positional_argument ''nums'' Integer variable_args []]
     [''1'', ''2''] Map.empty =
   Done ([''nums'' \<mapsto> [\<lparr>vtype = Integer, vvalue = ''1''\<rparr>, \<lparr>vtype = Integer, vvalue = ''2''\<rparr>]], [])"
  by (simp add: registration_defs parse_defs value_defs)

text \<open>
  C5. Phase 2 tests the cursor against the end of \<open>_remaining\<close> before it looks at the
  arity: where the positional arguments before \<open>a\<close> have taken every token, the loop
  throws "insufficient number of arguments" at \<open>a\<close> whatever its arity, and \<open>parse\<close>
  rethrows it when \<open>help_on_error\<close> is false and returns under no setting. A positional
  argument of variable arity that the loop gets past has taken every token left, at
  least one, and those values are what is inserted under its name.
\<close>

theorem positional_needs_a_token:
  "(positional_loop stod_ok pre vp m = Done (m1, []) \<longrightarrow>
      positional_loop stod_ok (pre @ a # post) vp m = Failed InsufficientArguments m1) \<and>
   (phase1 stod_ok (optional_parsers p) (arguments p) (amap p) [] = Done (m, vp) \<and>
    positional_parsers p = pre @ a # post \<and>
    positional_loop stod_ok pre vp m = Done (m1, []) \<longrightarrow>
      parse stod_ok False show_help_and_exit p = Rethrown InsufficientArguments (p\<lparr>amap := m1\<rparr>) \<and>
      (\<forall>help_on_error p'. parse stod_ok help_on_error show_help_and_exit p \<noteq> Returned p')) \<and>
   (nargs a = variable_args \<and> positional_loop stod_ok (a # post) vp m = Done r \<longrightarrow>
      (\<exists>v. v \<noteq> [] \<and> positional_take stod_ok a vp = Ok (v, []) \<and>
           positional_loop stod_ok post [] (map_insert m (aname a) v) = Done r))"
proof -
  have one: "positional_loop stod_ok (pre @ a # post) vp m = Failed InsufficientArguments m1"
    if "positional_loop stod_ok pre vp m = Done (m1, [])"
    using that by (simp add: positional_loop_append)
  have two: "parse stod_ok False show_help_and_exit p = Rethrown InsufficientArguments (p\<lparr>amap := m1\<rparr>) \<and>
      (\<forall>help_on_error p'. parse stod_ok help_on_error show_help_and_exit p \<noteq> Returned p')"
    if "phase1 stod_ok (optional_parsers p) (arguments p) (amap p) [] = Done (m, vp)"
      "positional_parsers p = pre @ a # post" "positional_loop stod_ok pre vp m = Done (m1, [])"
  proof -
    from that have "scan_arguments stod_ok p = Failed InsufficientArguments m1"
      by (simp add: scan_arguments_def positional_loop_append)
    then show ?thesis
      by (auto simp: parse_def help_then_exit_def split: result.splits bool.splits)
  qed
  have three: "\<exists>v. v \<noteq> [] \<and> positional_take stod_ok a vp = Ok (v, []) \<and>
           positional_loop stod_ok post [] (map_insert m (aname a) v) = Done r"
    if h: "nargs a = variable_args" "positional_loop stod_ok (a # post) vp m = Done r"
  proof -
    from h have ne: "vp \<noteq> []" by (auto split: if_splits)
    with h obtain v vp' where
      t: "positional_take stod_ok a vp = Ok (v, vp')"
      and l: "positional_loop stod_ok post vp' (map_insert m (aname a) v) = Done r"
      by (auto split: result.splits)
    from t h have "positional_varargs stod_ok (atype a) vp = Ok (v, vp')"
      by (simp add: positional_take_def variable_args_def)
    from positional_varargs_all[OF this] ne have "v \<noteq> []" "vp' = []" by auto
    with t l show ?thesis by auto
  qed
  from one two three show ?thesis by blast
qed

theorem positional_needs_a_token_witness:
  "phase1 no_float (optional_parsers short_input) (arguments short_input) (amap short_input) [] =
     Done (Map.empty, [''alice'']) \<and>
   positional_parsers short_input =
     [new_positional_argument ''name'' String 1 []] @
     new_positional_argument ''nums'' Integer variable_args [] # [] \<and>
   positional_loop no_float [new_positional_argument ''name'' String 1 []] [''alice''] Map.empty =
     Done ([''name'' \<mapsto> [\<lparr>vtype = String, vvalue = ''alice''\<rparr>]], []) \<and>
   nargs (new_positional_argument ''nums'' Integer variable_args []) = variable_args \<and>
   positional_loop no_float
     ([new_positional_argument ''name'' String 1 []] @
      new_positional_argument ''nums'' Integer variable_args [] # []) [''alice''] Map.empty =
     Failed InsufficientArguments [''name'' \<mapsto> [\<lparr>vtype = String, vvalue = ''alice''\<rparr>]] \<and>
   parse no_float False True short_input =
     Rethrown InsufficientArguments
       (short_input\<lparr>amap := [''name'' \<mapsto> [\<lparr>vtype = String, vvalue = ''alice''\<rparr>]]\<rparr>) \<and>
   positional_loop no_float [new_positional_argument ''nums'' Integer variable_args []]
     [''1'', ''2''] Map.empty =
     Done ([''nums'' \<mapsto> [\<lparr>vtype = Integer, vvalue = ''1''\<rparr>, \<lparr>vtype = Integer, vvalue = ''2''\<rparr>]], []) \<and>
   (\<exists>v. v \<noteq> [] \<and>
        positional_take no_float (new_positional_argument ''nums'' Integer variable_args [])
          [''1'', ''2''] = Ok (v, []))"
proof -
  note first = positional_needs_a_token[where stod_ok = no_float
      and pre = "[new_positional_argument ''name'' String 1 []]"
      and vp = "[''alice'']" and m = Map.empty
      and ?m1.0 = "[''name'' \<mapsto> [\<lparr>vtype = String, vvalue = ''alice''\<rparr>]]"
      and a = "new_positional_argument ''nums'' Integer variable_args []" and post = "[]"
      and p = short_input and show_help_and_exit = True]
  note second = positional_needs_a_token[where stod_ok = no_float and vp = "[''1'', ''2'']"
      and m = Map.empty
      and a = "new_positional_argument ''nums'' Integer variable_args []" and post = "[]"
      and r = "([''nums'' \<mapsto> [\<lparr>vtype = Integer, vvalue = ''1''\<rparr>, \<lparr>vtype = Integer, vvalue = ''2''\<rparr>]], [])"]
  have n: "nargs (new_positional_argument ''nums'' Integer variable_args []) = variable_args"
    by (simp add: new_positional_argument_def)
  from first short_input_scan
  have 1: "positional_loop no_float
     ([new_positional_argument ''name'' String 1 []] @
      new_positional_argument ''nums'' Integer variable_args [] # []) [''alice''] Map.empty =
     Failed InsufficientArguments [''name'' \<mapsto> [\<lparr>vtype = String, vvalue = ''alice''\<rparr>]]"
    and 2: "parse no_float False True short_input =
     Rethrown InsufficientArguments
       (short_input\<lparr>amap := [''name'' \<mapsto> [\<lparr>vtype = String, vvalue = ''alice''\<rparr>]]\<rparr>)"
    by blast+
  from second n nums_scan
  have 3: "\<exists>v. v \<noteq> [] \<and>
        positional_take no_float (new_positional_argument ''nums'' Integer variable_args [])
          [''1'', ''2''] = Ok (v, [])"
    by blast
  from short_input_scan n nums_scan 1 2 3 show ?thesis by blast
qed

section \<open>Reading a Bool\<close>

text \<open>
  The characters \<open>isspace\<close> and \<open>isdigit\<close> accept, one by one.
\<close>

lemma char_of_digits: "map char_of [48,49,50,51,52,53,54,55,56,57::nat] = ''0123456789''" by code_simp
lemma char_of_spaces: "map char_of [32,9,10,11,12,13::nat] = [CHR 0x20, CHR 0x09, CHR 0x0A, CHR 0x0B, CHR 0x0C, CHR 0x0D]" by code_simp

lemma isdigit_iff: "isdigit c \<longleftrightarrow> c \<in> set ''0123456789''"
proof
  assume "isdigit c"
  then have "48 \<le> (of_char c :: nat)" "(of_char c :: nat) \<le> 57"
    by (simp_all add: isdigit_def)
  then have "(of_char c :: nat) = 48 \<or> (of_char c :: nat) = 49 \<or> (of_char c :: nat) = 50 \<or>
      (of_char c :: nat) = 51 \<or> (of_char c :: nat) = 52 \<or> (of_char c :: nat) = 53 \<or>
      (of_char c :: nat) = 54 \<or> (of_char c :: nat) = 55 \<or> (of_char c :: nat) = 56 \<or>
      (of_char c :: nat) = 57"
    by arith
  then have "(of_char c :: nat) \<in> set [48,49,50,51,52,53,54,55,56,57]"
    by simp
  then have "char_of (of_char c :: nat) \<in> char_of ` set [48,49,50,51,52,53,54,55,56,57::nat]"
    by (rule imageI)
  then have "c \<in> set (map char_of [48,49,50,51,52,53,54,55,56,57::nat])"
    by (simp only: char_of_char set_map)
  then show "c \<in> set ''0123456789''" by (simp only: char_of_digits)
next
  assume "c \<in> set ''0123456789''"
  then show "isdigit c" by (auto simp: isdigit_def)
qed

lemma isspace_iff: "isspace c \<longleftrightarrow> c \<in> set [CHR 0x20, CHR 0x09, CHR 0x0A, CHR 0x0B, CHR 0x0C, CHR 0x0D]"
proof
  assume "isspace c"
  then have "(of_char c :: nat) = 32 \<or> (of_char c :: nat) = 9 \<or> (of_char c :: nat) = 10 \<or>
      (of_char c :: nat) = 11 \<or> (of_char c :: nat) = 12 \<or> (of_char c :: nat) = 13"
    unfolding isspace_def by arith
  then have "(of_char c :: nat) \<in> set [32,9,10,11,12,13]"
    by simp
  then have "char_of (of_char c :: nat) \<in> char_of ` set [32,9,10,11,12,13::nat]"
    by (rule imageI)
  then have "c \<in> set (map char_of [32,9,10,11,12,13::nat])"
    by (simp only: char_of_char set_map)
  then show "c \<in> set [CHR 0x20, CHR 0x09, CHR 0x0A, CHR 0x0B, CHR 0x0C, CHR 0x0D]" by (simp only: char_of_spaces)
next
  assume "c \<in> set [CHR 0x20, CHR 0x09, CHR 0x0A, CHR 0x0B, CHR 0x0C, CHR 0x0D]"
  then show "isspace c" by (auto simp: isspace_def)
qed

text \<open>
  The number a run of decimal digits writes, the first digit weighing most, for
  stating what \<open>std::stol\<close> returns.
\<close>

definition digit_of :: "char \<Rightarrow> int" where
  "digit_of c =
     (case map_of (zip ''0123456789'' [0, 1, 2, 3, 4, 5, 6, 7, 8, 9]) c of
        Some d \<Rightarrow> d
      | None \<Rightarrow> 0)"

fun digits_value :: "string \<Rightarrow> int" where
  "digits_value [] = 0"
| "digits_value (c # ds) = digit_of c * 10 ^ length ds + digits_value ds"

text \<open>
  C8 as it is worded, for comparison: a text parses as an integer when it is an optional
  sign and then decimal digits to its end, and its truth is whether that integer is
  not 0.
\<close>

definition integer_text :: "string \<Rightarrow> string option" where
  "integer_text s =
     (let ds = (case s of [] \<Rightarrow> [] | c # r \<Rightarrow> if c = CHR ''-'' \<or> c = CHR ''+'' then r else s)
      in if ds \<noteq> [] \<and> set ds \<subseteq> set ''0123456789'' then Some ds else None)"

definition claimed_bool :: "string \<Rightarrow> bool result" where
  "claimed_bool s =
     (if map tolower s = ''true'' then Ok True
      else if map tolower s = ''false'' then Ok False
      else (case integer_text s of
              Some ds \<Rightarrow> Ok (digits_value ds \<noteq> 0)
            | None \<Rightarrow> Throw (ConversionError Bool)))"

lemma tolower_digit: "isdigit c \<Longrightarrow> tolower c = c"
proof -
  assume d: "isdigit c"
  then have "(of_char c :: nat) < 65" by (simp add: isdigit_def)
  then have "c \<notin> set ''ABCDEFGHIJKLMNOPQRSTUVWXYZ''" by auto
  then have "map_of (zip ''ABCDEFGHIJKLMNOPQRSTUVWXYZ'' ''abcdefghijklmnopqrstuvwxyz'') c = None"
    by simp
  then show ?thesis by (simp only: tolower_def option.case)
qed

lemma digit_not_letter: "isdigit c \<Longrightarrow> c \<noteq> CHR ''t'' \<and> c \<noteq> CHR ''f''"
proof -
  assume "isdigit c"
  then have "(of_char c :: nat) \<le> 57" by (simp add: isdigit_def)
  then show ?thesis by auto
qed

lemma regex_match_icase_map:
  "regex_match_icase s pat = (map tolower s = map tolower pat)"
  by (induction s pat rule: regex_match_icase.induct) auto

lemma regex_match_true_false:
  "regex_match_icase s ''true'' = (map tolower s = ''true'')"
  "regex_match_icase s ''false'' = (map tolower s = ''false'')"
  by (simp_all add: regex_match_icase_map tolower_def)

lemma digit_of_char: "c \<in> set ''0123456789'' \<Longrightarrow> int (of_char c) - 48 = digit_of c"
  by (auto simp: digit_of_def)

lemma digit_of_nonneg: "0 \<le> digit_of c"
  by (simp add: digit_of_def)

lemma digits_value_nonneg: "0 \<le> digits_value ds"
  by (induction ds) (simp_all add: digit_of_nonneg)

lemma foldl_decimal:
  "set ds \<subseteq> set ''0123456789'' \<Longrightarrow>
     foldl (\<lambda>a c. 10 * a + (int (of_char c) - 48)) a ds = a * 10 ^ length ds + digits_value ds"
proof (induction ds arbitrary: a)
  case Nil
  then show ?case by simp
next
  case (Cons c ds)
  then have c: "int (of_char c) - 48 = digit_of c" and ds: "set ds \<subseteq> set ''0123456789''"
    using digit_of_char[of c] by auto
  show ?case
    unfolding foldl_Cons Cons.IH[OF ds] c by (simp add: algebra_simps)
qed

lemma decimal_digits_value: "set ds \<subseteq> set ''0123456789'' \<Longrightarrow> decimal ds = digits_value ds"
  using foldl_decimal[of ds 0] by (simp add: decimal_def)

lemma dropWhile_prefix:
  "\<forall>x \<in> set ws. P x \<Longrightarrow> r = [] \<or> \<not> P (hd r) \<Longrightarrow> dropWhile P (ws @ r) = r"
  by (cases r) (simp_all add: dropWhile_append3)

lemma takeWhile_prefix:
  "\<forall>x \<in> set ds. P x \<Longrightarrow> r = [] \<or> \<not> P (hd r) \<Longrightarrow> takeWhile P (ds @ r) = ds"
  by (cases r) (simp_all add: takeWhile_append2)



lemma digit_plain:
  assumes "c \<in> set ''0123456789''"
  shows "isdigit c" "\<not> isspace c" "c \<noteq> CHR ''-''" "c \<noteq> CHR ''+''"
  using assms by (auto simp: isdigit_def isspace_def)

lemma sign_plain: "\<not> isspace (CHR ''-'')" "\<not> isspace (CHR ''+'')"
  by (simp_all add: isspace_def)


lemma stol_nil:
  assumes "dropWhile isspace s = []"
  shows "stol s = Throw InvalidArgument"
  unfolding stol_def Let_def assms by simp

lemma stol_signed:
  assumes "dropWhile isspace s = c # r" "c = CHR ''-'' \<or> c = CHR ''+''" "takeWhile isdigit r = ds"
  shows "stol s =
     (if ds = [] then Throw InvalidArgument
      else if (if c = CHR ''-'' then - decimal ds else decimal ds) < LONG_MIN \<or>
              LONG_MAX < (if c = CHR ''-'' then - decimal ds else decimal ds)
      then Throw OutOfRange
      else Ok (if c = CHR ''-'' then - decimal ds else decimal ds))"
  unfolding stol_def Let_def assms(1) list.case using assms(2)
  by (simp only: assms(3) if_True simp_thms split: if_splits)

lemma stol_unsigned:
  assumes "dropWhile isspace s = c # r" "c \<noteq> CHR ''-''" "c \<noteq> CHR ''+''"
    "takeWhile isdigit (c # r) = ds"
  shows "stol s =
     (if ds = [] then Throw InvalidArgument
      else if decimal ds < LONG_MIN \<or> LONG_MAX < decimal ds then Throw OutOfRange
      else Ok (decimal ds))"
  unfolding stol_def Let_def assms(1) list.case using assms(2,3)
  by (simp only: assms(4) if_False simp_thms)

lemma stol_integer_prefix:
  assumes ws: "set ws \<subseteq> set [CHR 0x20, CHR 0x09, CHR 0x0A, CHR 0x0B, CHR 0x0C, CHR 0x0D]"
    and sg: "sg = [] \<or> sg = ''+'' \<or> sg = ''-''"
    and ds: "ds \<noteq> []" "set ds \<subseteq> set ''0123456789''"
    and rest: "rest = [] \<or> hd rest \<notin> set ''0123456789''"
  shows "stol (ws @ sg @ ds @ rest) =
     (if (if sg = ''-'' then digits_value ds \<le> 9223372036854775808
          else digits_value ds < 9223372036854775808)
      then Ok (if sg = ''-'' then - digits_value ds else digits_value ds)
      else Throw OutOfRange)"
proof -
  from ds obtain d r where d: "ds = d # r" "d \<in> set ''0123456789''" by (cases ds) auto
  have w: "\<forall>x \<in> set ws. isspace x" using ws unfolding isspace_iff by blast
  have digs: "\<forall>x \<in> set ds. isdigit x" using ds(2) unfolding isdigit_iff by blast
  have nd: "rest = [] \<or> \<not> isdigit (hd rest)" using rest unfolding isdigit_iff .
  have tw: "takeWhile isdigit (ds @ rest) = ds"
    using digs nd by (rule takeWhile_prefix)
  have dv: "decimal ds = digits_value ds" using ds(2) by (rule decimal_digits_value)
  have nn: "0 \<le> digits_value ds" by (rule digits_value_nonneg)
  from sg show ?thesis
  proof (elim disjE)
    assume e: "sg = []"
    have "dropWhile isspace (ws @ (d # (r @ rest))) = d # (r @ rest)"
      using w digit_plain(2)[OF d(2)] by (intro dropWhile_prefix) simp_all
    then have s1: "dropWhile isspace (ws @ sg @ ds @ rest) = d # (r @ rest)"
      by (simp only: e d(1) append_Nil append_Cons)
    have tw': "takeWhile isdigit (d # (r @ rest)) = ds"
      using tw by (simp only: d(1) append_Cons)
    have "stol (ws @ sg @ ds @ rest) =
        (if decimal ds < LONG_MIN \<or> LONG_MAX < decimal ds then Throw OutOfRange else Ok (decimal ds))"
      using stol_unsigned[OF s1 digit_plain(3,4)[OF d(2)] tw'] ds(1) by (simp only: if_False)
    then show ?thesis
      using nn by (simp add: dv e LONG_MIN_def LONG_MAX_def)
  next
    assume e: "sg = ''+''"
    have "dropWhile isspace (ws @ (CHR ''+'' # (ds @ rest))) = CHR ''+'' # (ds @ rest)"
      using w sign_plain by (intro dropWhile_prefix) simp_all
    then have s1: "dropWhile isspace (ws @ sg @ ds @ rest) = CHR ''+'' # (ds @ rest)"
      by (simp only: e append_Nil append_Cons)
    have "stol (ws @ sg @ ds @ rest) =
        (if decimal ds < LONG_MIN \<or> LONG_MAX < decimal ds then Throw OutOfRange else Ok (decimal ds))"
      using stol_signed[OF s1 _ tw] ds(1) by simp
    then show ?thesis
      using nn by (simp add: dv e LONG_MIN_def LONG_MAX_def)
  next
    assume e: "sg = ''-''"
    have "dropWhile isspace (ws @ (CHR ''-'' # (ds @ rest))) = CHR ''-'' # (ds @ rest)"
      using w sign_plain by (intro dropWhile_prefix) simp_all
    then have s1: "dropWhile isspace (ws @ sg @ ds @ rest) = CHR ''-'' # (ds @ rest)"
      by (simp only: e append_Nil append_Cons)
    have "stol (ws @ sg @ ds @ rest) =
        (if - decimal ds < LONG_MIN \<or> LONG_MAX < - decimal ds then Throw OutOfRange
         else Ok (- decimal ds))"
      using stol_signed[OF s1 _ tw] ds(1) by simp
    then show ?thesis
      using nn by (simp add: dv e LONG_MIN_def LONG_MAX_def)
  qed
qed


lemma stol_no_digit:
  assumes ws: "set ws \<subseteq> set [CHR 0x20, CHR 0x09, CHR 0x0A, CHR 0x0B, CHR 0x0C, CHR 0x0D]"
    and sg: "sg = [] \<or> sg = ''+'' \<or> sg = ''-''"
    and rest: "rest = [] \<or> hd rest \<notin> set ''0123456789''"
    and plain: "sg = [] \<longrightarrow> rest = [] \<or>
        hd rest \<notin> set [CHR 0x20, CHR 0x09, CHR 0x0A, CHR 0x0B, CHR 0x0C, CHR 0x0D, CHR ''+'', CHR ''-'']"
  shows "stol (ws @ sg @ rest) = Throw InvalidArgument"
proof -
  have w: "\<forall>x \<in> set ws. isspace x" using ws unfolding isspace_iff by blast
  have nd: "rest = [] \<or> \<not> isdigit (hd rest)" using rest unfolding isdigit_iff .
  have tw: "takeWhile isdigit rest = []"
    using nd by (cases rest) simp_all
  from sg show ?thesis
  proof (elim disjE)
    assume e: "sg = []"
    show ?thesis
    proof (cases rest)
      case Nil
      have "dropWhile isspace (ws @ sg @ rest) = []" using w by (simp add: e Nil)
      then show ?thesis by (rule stol_nil)
    next
      case (Cons c r)
      from plain e Cons
      have "c \<notin> set [CHR 0x20, CHR 0x09, CHR 0x0A, CHR 0x0B, CHR 0x0C, CHR 0x0D, CHR ''+'', CHR ''-'']"
        by simp
      then have c: "c \<notin> set [CHR 0x20, CHR 0x09, CHR 0x0A, CHR 0x0B, CHR 0x0C, CHR 0x0D]"
        "c \<noteq> CHR ''-''" "c \<noteq> CHR ''+''"
        by simp_all
      from c(1) have ns: "\<not> isspace c" unfolding isspace_iff .
      have "dropWhile isspace (ws @ (c # r)) = c # r"
        using w ns by (intro dropWhile_prefix) simp_all
      then have s1: "dropWhile isspace (ws @ sg @ rest) = c # r"
        by (simp only: e Cons append_Nil)
      have tw': "takeWhile isdigit (c # r) = []" using tw by (simp only: Cons)
      from stol_unsigned[OF s1 c(2,3) tw'] show ?thesis by simp
    qed
  next
    assume e: "sg = ''+''"
    have "dropWhile isspace (ws @ (CHR ''+'' # rest)) = CHR ''+'' # rest"
      using w sign_plain by (intro dropWhile_prefix) simp_all
    then have s1: "dropWhile isspace (ws @ sg @ rest) = CHR ''+'' # rest"
      by (simp only: e append_Nil append_Cons)
    from stol_signed[OF s1 _ tw] show ?thesis by simp
  next
    assume e: "sg = ''-''"
    have "dropWhile isspace (ws @ (CHR ''-'' # rest)) = CHR ''-'' # rest"
      using w sign_plain by (intro dropWhile_prefix) simp_all
    then have s1: "dropWhile isspace (ws @ sg @ rest) = CHR ''-'' # rest"
      by (simp only: e append_Nil append_Cons)
    from stol_signed[OF s1 _ tw] show ?thesis by simp
  qed
qed

lemma digit_text_not_true_false:
  assumes "c \<in> set s" "c \<in> set ''0123456789''"
  shows "map tolower s \<noteq> ''true''" "map tolower s \<noteq> ''false''"
proof -
  from assms(2) have "isdigit c" by (rule digit_plain(1))
  then have "tolower c = c" by (rule tolower_digit)
  with assms(1) have in_map: "c \<in> set (map tolower s)" by force
  have "c \<notin> set ''true''" "c \<notin> set ''false''"
    using digit_not_letter[OF \<open>isdigit c\<close>] assms(2) by auto
  with in_map show "map tolower s \<noteq> ''true''" "map tolower s \<noteq> ''false''"
    by metis+
qed

text \<open>
  C8. The claim: a text other than \<open>true\<close> and \<open>false\<close> reads as the truth of the integer
  it is, and fails when it is not an integer. Against it: \<open>12abc\<close> and \<open>1\<close> after a
  space are no integers and read as true, \<open>0x10\<close> is none and reads as false, and
  9223372036854775808, an integer that is not 0, fails.
\<close>

theorem stol_reads_a_prefix:
  "value_get_bool \<lparr>vtype = Bool, vvalue = ''12abc''\<rparr> = Ok True \<and>
   claimed_bool ''12abc'' = Throw (ConversionError Bool) \<and>
   value_get_bool \<lparr>vtype = Bool, vvalue = '' 1''\<rparr> = Ok True \<and>
   claimed_bool '' 1'' = Throw (ConversionError Bool) \<and>
   value_get_bool \<lparr>vtype = Bool, vvalue = ''0x10''\<rparr> = Ok False \<and>
   claimed_bool ''0x10'' = Throw (ConversionError Bool) \<and>
   value_get_bool \<lparr>vtype = Bool, vvalue = ''9223372036854775808''\<rparr> = Throw (ConversionError Bool) \<and>
   claimed_bool ''9223372036854775808'' = Ok True"
  by (simp add: value_get_bool_def value_defs claimed_bool_def integer_text_def digit_of_def)

lemma text_splits:
  "\<exists>ws sg ds rest.
     s = ws @ sg @ ds @ rest \<and>
     set ws \<subseteq> set [CHR 0x20, CHR 0x09, CHR 0x0A, CHR 0x0B, CHR 0x0C, CHR 0x0D] \<and>
     (sg = [] \<or> sg = ''+'' \<or> sg = ''-'') \<and>
     set ds \<subseteq> set ''0123456789'' \<and>
     (rest = [] \<or> hd rest \<notin> set ''0123456789'') \<and>
     (sg = [] \<and> ds = [] \<longrightarrow> rest = [] \<or>
        hd rest \<notin> set [CHR 0x20, CHR 0x09, CHR 0x0A, CHR 0x0B, CHR 0x0C, CHR 0x0D, CHR ''+'', CHR ''-''])"
proof -
  define ws where "ws = takeWhile isspace s"
  define r where "r = dropWhile isspace s"
  define sg where "sg = (case r of [] \<Rightarrow> [] | c # _ \<Rightarrow> if c = CHR ''+'' \<or> c = CHR ''-'' then [c] else [])"
  define r' where "r' = drop (length sg) r"
  define ds where "ds = takeWhile isdigit r'"
  define rest where "rest = dropWhile isdigit r'"
  have s: "s = ws @ r" by (simp add: ws_def r_def)
  have r: "r = sg @ r'" by (cases r) (auto simp: sg_def r'_def)
  have r': "r' = ds @ rest" by (simp add: ds_def rest_def)
  have 1: "set ws \<subseteq> set [CHR 0x20, CHR 0x09, CHR 0x0A, CHR 0x0B, CHR 0x0C, CHR 0x0D]"
  proof
    fix x assume "x \<in> set ws"
    then have "isspace x" unfolding ws_def by (rule set_takeWhileD[THEN conjunct2])
    then show "x \<in> set [CHR 0x20, CHR 0x09, CHR 0x0A, CHR 0x0B, CHR 0x0C, CHR 0x0D]"
      unfolding isspace_iff .
  qed
  have 2: "sg = [] \<or> sg = ''+'' \<or> sg = ''-''" by (cases r) (auto simp: sg_def)
  have 3: "set ds \<subseteq> set ''0123456789''"
  proof
    fix x assume "x \<in> set ds"
    then have "isdigit x" unfolding ds_def by (rule set_takeWhileD[THEN conjunct2])
    then show "x \<in> set ''0123456789''" unfolding isdigit_iff .
  qed
  have nd: "rest = [] \<or> \<not> isdigit (hd rest)"
    unfolding rest_def by (cases "dropWhile isdigit r'") (auto dest: dropWhile_eq_Cons_conv[THEN iffD1])
  then have 4: "rest = [] \<or> hd rest \<notin> set ''0123456789''" unfolding isdigit_iff .
  have ns: "r = [] \<or> \<not> isspace (hd r)"
    unfolding r_def by (cases "dropWhile isspace s") (auto dest: dropWhile_eq_Cons_conv[THEN iffD1])
  have 5: "rest = [] \<or>
        hd rest \<notin> set [CHR 0x20, CHR 0x09, CHR 0x0A, CHR 0x0B, CHR 0x0C, CHR 0x0D, CHR ''+'', CHR ''-'']"
    if e: "sg = []" "ds = []"
  proof (cases r)
    case Nil
    with r r' show ?thesis by simp
  next
    case (Cons c t)
    from e r r' have rr: "rest = r" by simp
    from Cons e(1) have c: "c \<noteq> CHR ''+''" "c \<noteq> CHR ''-''"
      by (auto simp: sg_def split: if_splits)
    from ns Cons have "\<not> isspace c" by simp
    then have "c \<notin> set [CHR 0x20, CHR 0x09, CHR 0x0A, CHR 0x0B, CHR 0x0C, CHR 0x0D]"
      unfolding isspace_iff .
    with c rr Cons show ?thesis by simp
  qed
  from s r r' have "s = ws @ sg @ ds @ rest" by simp
  with 1 2 3 4 5 show ?thesis by blast
qed

text \<open>
  C8, as the code has it: true for a text that is \<open>true\<close> up to the case of its letters,
  false for \<open>false\<close> likewise. Any other text is read by \<open>std::stol\<close>: after white space
  (space, tab, line feed, vertical tab, form feed, carriage return) and one optional
  sign, the longest run of decimal digits counts and what follows it is ignored. The
  result is whether that number is not 0, if it lies between -9223372036854775808 and
  9223372036854775807; "value is not convertible to boolean-type" is thrown when it lies
  outside, and when no digit stands at that place. Every text is of one of these forms.
\<close>

theorem bool_reading:
  "(map tolower (vvalue v) = ''true'' \<longrightarrow> value_get_bool v = Ok True) \<and>
   (map tolower (vvalue v) = ''false'' \<longrightarrow> value_get_bool v = Ok False) \<and>
   (vvalue v = ws @ sg @ ds @ rest \<and>
    set ws \<subseteq> set [CHR 0x20, CHR 0x09, CHR 0x0A, CHR 0x0B, CHR 0x0C, CHR 0x0D] \<and>
    (sg = [] \<or> sg = ''+'' \<or> sg = ''-'') \<and>
    ds \<noteq> [] \<and> set ds \<subseteq> set ''0123456789'' \<and>
    (rest = [] \<or> hd rest \<notin> set ''0123456789'') \<longrightarrow>
      value_get_bool v =
        (if (if sg = ''-'' then digits_value ds \<le> 9223372036854775808
             else digits_value ds < 9223372036854775808)
         then Ok (digits_value ds \<noteq> 0)
         else Throw (ConversionError Bool))) \<and>
   (map tolower (vvalue v) \<noteq> ''true'' \<and> map tolower (vvalue v) \<noteq> ''false'' \<and>
    vvalue v = ws @ sg @ rest \<and>
    set ws \<subseteq> set [CHR 0x20, CHR 0x09, CHR 0x0A, CHR 0x0B, CHR 0x0C, CHR 0x0D] \<and>
    (sg = [] \<or> sg = ''+'' \<or> sg = ''-'') \<and>
    (rest = [] \<or> hd rest \<notin> set ''0123456789'') \<and>
    (sg = [] \<longrightarrow> rest = [] \<or>
       hd rest \<notin> set [CHR 0x20, CHR 0x09, CHR 0x0A, CHR 0x0B, CHR 0x0C, CHR 0x0D, CHR ''+'', CHR ''-'']) \<longrightarrow>
      value_get_bool v = Throw (ConversionError Bool)) \<and>
   (\<exists>ws sg ds rest.
      vvalue v = ws @ sg @ ds @ rest \<and>
      set ws \<subseteq> set [CHR 0x20, CHR 0x09, CHR 0x0A, CHR 0x0B, CHR 0x0C, CHR 0x0D] \<and>
      (sg = [] \<or> sg = ''+'' \<or> sg = ''-'') \<and>
      set ds \<subseteq> set ''0123456789'' \<and>
      (rest = [] \<or> hd rest \<notin> set ''0123456789'') \<and>
      (sg = [] \<and> ds = [] \<longrightarrow> rest = [] \<or>
         hd rest \<notin> set [CHR 0x20, CHR 0x09, CHR 0x0A, CHR 0x0B, CHR 0x0C, CHR 0x0D, CHR ''+'', CHR ''-'']))"
proof -
  let ?s = "vvalue v"
  have yes: "value_get_bool v = Ok True" if "map tolower ?s = ''true''"
    using that by (simp add: value_get_bool_def convert_bool_def regex_match_true_false)
  have no: "value_get_bool v = Ok False" if "map tolower ?s = ''false''"
    using that by (simp add: value_get_bool_def convert_bool_def regex_match_true_false)
  have other: "value_get_bool v = (case stol ?s of Ok n \<Rightarrow> Ok (n \<noteq> 0)
      | Throw e \<Rightarrow> Throw (ConversionError Bool) | Undefined \<Rightarrow> Undefined)"
    if "map tolower ?s \<noteq> ''true''" "map tolower ?s \<noteq> ''false''"
    using that by (simp add: value_get_bool_def convert_bool_def regex_match_true_false)
  have prefix: "value_get_bool v =
        (if (if sg = ''-'' then digits_value ds \<le> 9223372036854775808
             else digits_value ds < 9223372036854775808)
         then Ok (digits_value ds \<noteq> 0)
         else Throw (ConversionError Bool))"
    if h: "?s = ws @ sg @ ds @ rest"
      "set ws \<subseteq> set [CHR 0x20, CHR 0x09, CHR 0x0A, CHR 0x0B, CHR 0x0C, CHR 0x0D]"
      "sg = [] \<or> sg = ''+'' \<or> sg = ''-''" "ds \<noteq> []" "set ds \<subseteq> set ''0123456789''"
      "rest = [] \<or> hd rest \<notin> set ''0123456789''"
  proof -
    from h(4) obtain d r where d: "ds = d # r" by (cases ds) auto
    with h(5) have dd: "d \<in> set ''0123456789''" by simp
    from h(1) d have "d \<in> set ?s" by simp
    from other[OF digit_text_not_true_false[OF this dd]]
    have "value_get_bool v = (case stol (ws @ sg @ ds @ rest) of Ok n \<Rightarrow> Ok (n \<noteq> 0)
      | Throw e \<Rightarrow> Throw (ConversionError Bool) | Undefined \<Rightarrow> Undefined)"
      by (simp only: h(1))
    then show ?thesis
      unfolding stol_integer_prefix[OF h(2,3,4,5,6)] by simp
  qed
  have none: "value_get_bool v = Throw (ConversionError Bool)"
    if h: "map tolower ?s \<noteq> ''true''" "map tolower ?s \<noteq> ''false''" "?s = ws @ sg @ rest"
      "set ws \<subseteq> set [CHR 0x20, CHR 0x09, CHR 0x0A, CHR 0x0B, CHR 0x0C, CHR 0x0D]"
      "sg = [] \<or> sg = ''+'' \<or> sg = ''-''"
      "rest = [] \<or> hd rest \<notin> set ''0123456789''"
      "sg = [] \<longrightarrow> rest = [] \<or>
       hd rest \<notin> set [CHR 0x20, CHR 0x09, CHR 0x0A, CHR 0x0B, CHR 0x0C, CHR 0x0D, CHR ''+'', CHR ''-'']"
  proof -
    from other[OF h(1,2)]
    have "value_get_bool v = (case stol (ws @ sg @ rest) of Ok n \<Rightarrow> Ok (n \<noteq> 0)
      | Throw e \<Rightarrow> Throw (ConversionError Bool) | Undefined \<Rightarrow> Undefined)"
      by (simp only: h(3))
    then show ?thesis
      unfolding stol_no_digit[OF h(4,5,6,7)] by simp
  qed
  from yes no prefix none text_splits[of ?s] show ?thesis by blast
qed

theorem bool_reading_witness:
  "map tolower ''TrUe'' = ''true'' \<and>
   value_get_bool \<lparr>vtype = Bool, vvalue = ''TrUe''\<rparr> = Ok True \<and>
   map tolower ''FALSE'' = ''false'' \<and>
   value_get_bool \<lparr>vtype = Bool, vvalue = ''FALSE''\<rparr> = Ok False \<and>
   digits_value ''12'' = 12 \<and>
   value_get_bool \<lparr>vtype = Bool, vvalue = ''12abc''\<rparr> = Ok True \<and>
   digits_value ''0'' = 0 \<and>
   value_get_bool \<lparr>vtype = Bool, vvalue = '' -0''\<rparr> = Ok False \<and>
   digits_value ''9223372036854775808'' = 9223372036854775808 \<and>
   value_get_bool \<lparr>vtype = Bool, vvalue = ''9223372036854775808''\<rparr> = Throw (ConversionError Bool) \<and>
   value_get_bool \<lparr>vtype = Bool, vvalue = ''-9223372036854775808''\<rparr> = Ok True \<and>
   value_get_bool \<lparr>vtype = Bool, vvalue = ''yes''\<rparr> = Throw (ConversionError Bool) \<and>
   value_get_bool \<lparr>vtype = Bool, vvalue = ''-''\<rparr> = Throw (ConversionError Bool)"
proof -
  have t: "map tolower ''TrUe'' = ''true''" "map tolower ''FALSE'' = ''false''"
    "map tolower ''yes'' \<noteq> ''true''" "map tolower ''yes'' \<noteq> ''false''"
    "map tolower ''-'' \<noteq> ''true''" "map tolower ''-'' \<noteq> ''false''"
    by (simp_all add: tolower_def)
  have d: "digits_value ''12'' = 12" "digits_value ''0'' = 0"
    "digits_value ''9223372036854775808'' = 9223372036854775808"
    by (simp_all add: digit_of_def)
  have 1: "value_get_bool \<lparr>vtype = Bool, vvalue = ''TrUe''\<rparr> = Ok True"
    using bool_reading[where v = "\<lparr>vtype = Bool, vvalue = ''TrUe''\<rparr>", THEN conjunct1] t(1)
    by simp
  have 2: "value_get_bool \<lparr>vtype = Bool, vvalue = ''FALSE''\<rparr> = Ok False"
    using bool_reading[where v = "\<lparr>vtype = Bool, vvalue = ''FALSE''\<rparr>",
        THEN conjunct2, THEN conjunct1] t(2)
    by simp
  have 3: "value_get_bool \<lparr>vtype = Bool, vvalue = ''12abc''\<rparr> = Ok True"
    using bool_reading[where v = "\<lparr>vtype = Bool, vvalue = ''12abc''\<rparr>" and ws = "[]" and sg = "[]"
        and ds = "''12''" and rest = "''abc''", THEN conjunct2, THEN conjunct2, THEN conjunct1] d(1)
    by simp
  have 4: "value_get_bool \<lparr>vtype = Bool, vvalue = '' -0''\<rparr> = Ok False"
    using bool_reading[where v = "\<lparr>vtype = Bool, vvalue = '' -0''\<rparr>" and ws = "'' ''" and sg = "''-''"
        and ds = "''0''" and rest = "[]", THEN conjunct2, THEN conjunct2, THEN conjunct1] d(2)
    by simp
  have 5: "value_get_bool \<lparr>vtype = Bool, vvalue = ''9223372036854775808''\<rparr> =
      Throw (ConversionError Bool)"
    using bool_reading[where v = "\<lparr>vtype = Bool, vvalue = ''9223372036854775808''\<rparr>" and ws = "[]"
        and sg = "[]" and ds = "''9223372036854775808''" and rest = "[]",
        THEN conjunct2, THEN conjunct2, THEN conjunct1] d(3)
    by simp
  have 6: "value_get_bool \<lparr>vtype = Bool, vvalue = ''-9223372036854775808''\<rparr> = Ok True"
    using bool_reading[where v = "\<lparr>vtype = Bool, vvalue = ''-9223372036854775808''\<rparr>" and ws = "[]"
        and sg = "''-''" and ds = "''9223372036854775808''" and rest = "[]",
        THEN conjunct2, THEN conjunct2, THEN conjunct1] d(3)
    by simp
  have 7: "value_get_bool \<lparr>vtype = Bool, vvalue = ''yes''\<rparr> = Throw (ConversionError Bool)"
    using bool_reading[where v = "\<lparr>vtype = Bool, vvalue = ''yes''\<rparr>" and ws = "[]" and sg = "[]"
        and rest = "''yes''", THEN conjunct2, THEN conjunct2, THEN conjunct2, THEN conjunct1] t(3,4)
    by simp
  have 8: "value_get_bool \<lparr>vtype = Bool, vvalue = ''-''\<rparr> = Throw (ConversionError Bool)"
    using bool_reading[where v = "\<lparr>vtype = Bool, vvalue = ''-''\<rparr>" and ws = "[]" and sg = "''-''"
        and rest = "[]", THEN conjunct2, THEN conjunct2, THEN conjunct2, THEN conjunct1] t(5,6)
    by simp
  from t(1,2) d 1 2 3 4 5 6 7 8 show ?thesis by simp
qed

section \<open>Phase 1: an option of variable arity\<close>

lemma directive_eq_set: "directive_eq ds str = (str \<in> set ds)"
  by (induction ds) auto

lemma registered_directive_iff:
  "registered_directive op t = (\<exists>q \<in> set op. t \<in> set (optseqs q))"
  by (auto simp: registered_directive_def find_None_iff optional_eq_def directive_eq_set)

lemma value_new_Ok: "value_new stod_ok ty t = Ok x \<Longrightarrow> x = \<lparr>vtype = ty, vvalue = t\<rparr>"
  by (auto simp: value_new_def split: result.splits)

lemma option_varargs_taken:
  assumes "\<forall>t \<in> set (takeWhile (\<lambda>t. \<not> registered_directive op t) vp).
             \<exists>x. value_new stod_ok ty t = Ok x"
  shows "option_varargs stod_ok op ty vp =
           Ok (map (\<lambda>t. \<lparr>vtype = ty, vvalue = t\<rparr>) (takeWhile (\<lambda>t. \<not> registered_directive op t) vp),
               dropWhile (\<lambda>t. \<not> registered_directive op t) vp)"
  using assms
proof (induction vp)
  case Nil
  then show ?case by simp
next
  case (Cons t vp)
  show ?case
  proof (cases "registered_directive op t")
    case True
    then show ?thesis by simp
  next
    case False
    with Cons.prems obtain x where x: "value_new stod_ok ty t = Ok x" by auto
    from Cons.prems False have "\<forall>t \<in> set (takeWhile (\<lambda>t. \<not> registered_directive op t) vp).
             \<exists>x. value_new stod_ok ty t = Ok x" by simp
    from Cons.IH[OF this] False x value_new_Ok[OF x] show ?thesis by simp
  qed
qed

lemma option_varargs_Ok:
  "option_varargs stod_ok op ty vp = Ok (v, vp') \<Longrightarrow>
     v = map (\<lambda>t. \<lparr>vtype = ty, vvalue = t\<rparr>) (takeWhile (\<lambda>t. \<not> registered_directive op t) vp) \<and>
     vp' = dropWhile (\<lambda>t. \<not> registered_directive op t) vp"
proof (induction vp arbitrary: v)
  case Nil
  then show ?case by simp
next
  case (Cons t vp)
  show ?case
  proof (cases "registered_directive op t")
    case True
    with Cons.prems show ?thesis by auto
  next
    case False
    with Cons.prems obtain x v1 where
      x: "value_new stod_ok ty t = Ok x" and r: "option_varargs stod_ok op ty vp = Ok (v1, vp')"
      and v: "v = x # v1"
      by (auto split: result.splits)
    from Cons.IH[OF r] False v value_new_Ok[OF x] show ?thesis by simp
  qed
qed

text \<open>
  C4 as it is worded, for comparison: the values an option \<open>o'\<close> of variable arity takes
  when it stops only at a directive of some other registered option.
\<close>

fun claimed_varargs ::
  "(string \<Rightarrow> bool) \<Rightarrow> optional_argument list \<Rightarrow> optional_argument \<Rightarrow> string list \<Rightarrow>
     (values \<times> string list) result" where
  "claimed_varargs stod_ok op o' [] = Ok ([], [])"
| "claimed_varargs stod_ok op o' (t # vp) =
     (if registered_directive (filter (\<lambda>q. q \<noteq> o') op) t then Ok ([], t # vp)
      else (case value_new stod_ok (atype o') t of
              Throw e \<Rightarrow> Throw e
            | Undefined \<Rightarrow> Undefined
            | Ok x \<Rightarrow> (case claimed_varargs stod_ok op o' vp of
                         Throw e \<Rightarrow> Throw e
                       | Undefined \<Rightarrow> Undefined
                       | Ok (v, vp') \<Rightarrow> Ok (x # v, vp'))))"

definition tags_option :: optional_argument where
  "tags_option = new_optional_argument [''--tags''] ''tags'' String variable_args []"

definition verbose_option :: optional_argument where
  "verbose_option = new_optional_argument [''--verbose''] ''verbose'' Bool 0 []"

definition tags_twice :: argparse where
  "tags_twice =
     (argparse_new ''app'' [''--tags'', ''a'', ''--tags'', ''b''] [] False)
       \<lparr>optional_parsers := [tags_option]\<rparr>"

lemma tags_twice_registration:
  "add_option1 (argparse_new ''app'' [''--tags'', ''a'', ''--tags'', ''b''] [] False)
     ''--tags'' ''tags'' String variable_args [] = Ok tags_twice"
  by (simp add: tags_twice_def tags_option_def registration_defs)

lemma tags_twice_parse:
  "parse no_float False False tags_twice =
     Returned (tags_twice\<lparr>amap := [''tags'' \<mapsto> [\<lparr>vtype = String, vvalue = ''a''\<rparr>]],
                          completed := True\<rparr>)"
  by (simp add: tags_twice_def tags_option_def no_float_def registration_defs parse_defs value_defs)

text \<open>
  C4. The claim: a matched option of variable arity takes the tokens up to one that
  matches some other registered directive, or to the end. Against it, \<open>--tags\<close> alone
  registered and \<open>argv = app --tags a --tags b\<close>: no other directive is there to stop at,
  so as worded \<open>tags\<close> would take \<open>a\<close>, \<open>--tags\<close> and \<open>b\<close>; the code stops at the second
  \<open>--tags\<close> and \<open>parse\<close> leaves \<open>tags\<close> bound to \<open>a\<close> alone.
\<close>

theorem option_varargs_stops_at_own_directive:
  "add_option1 (argparse_new ''app'' [''--tags'', ''a'', ''--tags'', ''b''] [] False)
     ''--tags'' ''tags'' String variable_args [] = Ok tags_twice \<and>
   optional_parsers tags_twice = [tags_option] \<and>
   option_varargs no_float [tags_option] (atype tags_option) [''a'', ''--tags'', ''b''] =
     Ok ([\<lparr>vtype = String, vvalue = ''a''\<rparr>], [''--tags'', ''b'']) \<and>
   claimed_varargs no_float [tags_option] tags_option [''a'', ''--tags'', ''b''] =
     Ok ([\<lparr>vtype = String, vvalue = ''a''\<rparr>, \<lparr>vtype = String, vvalue = ''--tags''\<rparr>,
          \<lparr>vtype = String, vvalue = ''b''\<rparr>], []) \<and>
   parse no_float False False tags_twice =
     Returned (tags_twice\<lparr>amap := [''tags'' \<mapsto> [\<lparr>vtype = String, vvalue = ''a''\<rparr>]],
                          completed := True\<rparr>)"
proof -
  have "option_varargs no_float [tags_option] (atype tags_option) [''a'', ''--tags'', ''b''] =
     Ok ([\<lparr>vtype = String, vvalue = ''a''\<rparr>], [''--tags'', ''b''])"
    by (simp add: tags_option_def no_float_def registration_defs parse_defs value_defs)
  moreover have "claimed_varargs no_float [tags_option] tags_option [''a'', ''--tags'', ''b''] =
     Ok ([\<lparr>vtype = String, vvalue = ''a''\<rparr>, \<lparr>vtype = String, vvalue = ''--tags''\<rparr>,
          \<lparr>vtype = String, vvalue = ''b''\<rparr>], [])"
    by (simp add: tags_option_def no_float_def registration_defs parse_defs value_defs)
  moreover have "optional_parsers tags_twice = [tags_option]"
    by (simp add: tags_twice_def registration_defs)
  ultimately show ?thesis
    using tags_twice_registration tags_twice_parse by simp
qed

text \<open>
  C4, as the code has it: the option takes the tokens before the first one that is a
  directive of any registered option, its own directives included, or all of them when
  there is none, each as a value of the option's type; the scan throws if one of them
  does not convert. The values are inserted under the option's name and the loop goes
  on after them, with the empty list when the option is followed by nothing or by a
  directive at once.
\<close>

theorem option_varargs_stops_at_any_directive:
  "(option_varargs stod_ok op ty vp = Ok (v, vp') \<longrightarrow>
      v = map (\<lambda>t. \<lparr>vtype = ty, vvalue = t\<rparr>) (takeWhile (\<lambda>t. \<not> registered_directive op t) vp) \<and>
      vp' = dropWhile (\<lambda>t. \<not> registered_directive op t) vp) \<and>
   ((\<forall>t \<in> set (takeWhile (\<lambda>t. \<not> registered_directive op t) vp). \<exists>x. value_new stod_ok ty t = Ok x) \<longrightarrow>
      (\<exists>v. option_varargs stod_ok op ty vp = Ok (v, dropWhile (\<lambda>t. \<not> registered_directive op t) vp))) \<and>
   registered_directive op t = (\<exists>q \<in> set op. t \<in> set (optseqs q)) \<and>
   (o' \<in> set op \<and> t \<in> set (optseqs o') \<longrightarrow> registered_directive op t) \<and>
   (optional_eq o' t \<and> nargs o' = variable_args \<and>
    option_varargs stod_ok op (atype o') vp = Ok (v, vp') \<longrightarrow>
      option_loop stod_ok op (o' # os) (t # vp) m updated =
        option_loop stod_ok op os vp' (map_insert m (aname o') v) True) \<and>
   (vp = [] \<or> registered_directive op (hd vp) \<longrightarrow> option_varargs stod_ok op ty vp = Ok ([], vp))"
proof -
  have zero: "option_varargs stod_ok op ty vp = Ok ([], vp)" if "vp = [] \<or> registered_directive op (hd vp)"
    using that by (cases vp) auto
  have loop: "option_loop stod_ok op (o' # os) (t # vp) m updated =
        option_loop stod_ok op os vp' (map_insert m (aname o') v) True"
    if "optional_eq o' t" "nargs o' = variable_args" "option_varargs stod_ok op (atype o') vp = Ok (v, vp')"
    using that by (simp add: variable_args_def)
  from zero loop option_varargs_Ok[of stod_ok op ty vp v vp'] option_varargs_taken[of op vp stod_ok ty]
    registered_directive_iff[of op t]
  show ?thesis by blast
qed

theorem option_varargs_stops_at_any_directive_witness:
  "option_varargs no_float [tags_option, verbose_option] String [''a'', ''b'', ''--verbose''] =
     Ok ([\<lparr>vtype = String, vvalue = ''a''\<rparr>, \<lparr>vtype = String, vvalue = ''b''\<rparr>], [''--verbose'']) \<and>
   takeWhile (\<lambda>t. \<not> registered_directive [tags_option, verbose_option] t) [''a'', ''b'', ''--verbose''] =
     [''a'', ''b''] \<and>
   dropWhile (\<lambda>t. \<not> registered_directive [tags_option, verbose_option] t) [''a'', ''b'', ''--verbose''] =
     [''--verbose''] \<and>
   registered_directive [tags_option, verbose_option] ''--tags'' \<and>
   optional_eq tags_option ''--tags'' \<and> nargs tags_option = variable_args \<and>
   option_loop no_float [tags_option, verbose_option] (tags_option # [verbose_option])
       (''--tags'' # [''a'', ''b'', ''--verbose'']) Map.empty False =
     option_loop no_float [tags_option, verbose_option] [verbose_option] [''--verbose'']
       (map_insert Map.empty (aname tags_option)
          [\<lparr>vtype = String, vvalue = ''a''\<rparr>, \<lparr>vtype = String, vvalue = ''b''\<rparr>]) True \<and>
   option_varargs no_float [tags_option, verbose_option] String [''--verbose''] = Ok ([], [''--verbose''])"
proof -
  have run: "option_varargs no_float [tags_option, verbose_option] String [''a'', ''b'', ''--verbose''] =
     Ok ([\<lparr>vtype = String, vvalue = ''a''\<rparr>, \<lparr>vtype = String, vvalue = ''b''\<rparr>], [''--verbose''])"
    and own: "tags_option \<in> set [tags_option, verbose_option]" "''--tags'' \<in> set (optseqs tags_option)"
    and match: "optional_eq tags_option ''--tags''" "nargs tags_option = variable_args"
      "atype tags_option = String"
    and stop: "registered_directive [tags_option, verbose_option] (hd [''--verbose''])"
    by (simp_all add: tags_option_def verbose_option_def no_float_def registration_defs parse_defs
        value_defs)
  note first = option_varargs_stops_at_any_directive[where stod_ok = no_float
      and op = "[tags_option, verbose_option]" and ty = String and vp = "[''a'', ''b'', ''--verbose'']"
      and v = "[\<lparr>vtype = String, vvalue = ''a''\<rparr>, \<lparr>vtype = String, vvalue = ''b''\<rparr>]"
      and vp' = "[''--verbose'']" and o' = tags_option and t = "''--tags''"
      and os = "[verbose_option]" and m = Map.empty and updated = False]
  note second = option_varargs_stops_at_any_directive[where stod_ok = no_float
      and op = "[tags_option, verbose_option]" and ty = String and vp = "[''--verbose'']"]
  from first run have
    taken: "[\<lparr>vtype = String, vvalue = ''a''\<rparr>, \<lparr>vtype = String, vvalue = ''b''\<rparr>] =
      map (\<lambda>t. \<lparr>vtype = String, vvalue = t\<rparr>)
        (takeWhile (\<lambda>t. \<not> registered_directive [tags_option, verbose_option] t) [''a'', ''b'', ''--verbose''])"
    and rest: "[''--verbose''] =
      dropWhile (\<lambda>t. \<not> registered_directive [tags_option, verbose_option] t) [''a'', ''b'', ''--verbose'']"
    by blast+
  from arg_cong[OF taken, of "map vvalue"]
  have taken': "takeWhile (\<lambda>t. \<not> registered_directive [tags_option, verbose_option] t)
      [''a'', ''b'', ''--verbose''] = [''a'', ''b'']"
    by (simp add: comp_def del: takeWhile.simps)
  from first own have reg: "registered_directive [tags_option, verbose_option] ''--tags''"
    by blast
  from run match(3)
  have run': "option_varargs no_float [tags_option, verbose_option] (atype tags_option)
      [''a'', ''b'', ''--verbose''] =
     Ok ([\<lparr>vtype = String, vvalue = ''a''\<rparr>, \<lparr>vtype = String, vvalue = ''b''\<rparr>], [''--verbose''])"
    by (simp only:)
  from first match(1,2) run' have loop: "option_loop no_float [tags_option, verbose_option]
       (tags_option # [verbose_option]) (''--tags'' # [''a'', ''b'', ''--verbose'']) Map.empty False =
     option_loop no_float [tags_option, verbose_option] [verbose_option] [''--verbose'']
       (map_insert Map.empty (aname tags_option)
          [\<lparr>vtype = String, vvalue = ''a''\<rparr>, \<lparr>vtype = String, vvalue = ''b''\<rparr>]) True"
    by blast
  from second stop have zero: "option_varargs no_float [tags_option, verbose_option] String [''--verbose''] =
      Ok ([], [''--verbose''])"
    by blast
  from run taken' rest[symmetric] reg match(1,2) loop zero show ?thesis by blast
qed

section \<open>Registration under a name already taken\<close>

text \<open>One String \<open>x\<close> on a parser with the help option.\<close>

definition named_x :: argparse where
  "named_x =
     (argparse_new ''app'' [] [] True)
       \<lparr>positional_parsers := [new_positional_argument ''x'' String 1 []]\<rparr>"

lemma named_x_registration:
  "add_argument (argparse_new ''app'' [] [] True) ''x'' String 1 [] = Ok named_x"
  by (simp add: named_x_def registration_defs)

text \<open>
  C2. The claim: \<open>add_argument\<close> and \<open>add_option\<close> throw when the name is that of an
  argument already registered. Against it: with \<open>x\<close> registered as a positional
  argument, registering \<open>x\<close> again as a positional argument or as an option, by either
  form of \<open>add_option\<close>, returns with the new argument appended.
\<close>

theorem registered_name_is_accepted_again:
  "add_argument (argparse_new ''app'' [] [] True) ''x'' String 1 [] = Ok named_x \<and>
   add_argument named_x ''x'' Integer 1 [] =
     Ok (named_x\<lparr>positional_parsers := [new_positional_argument ''x'' String 1 [],
                                          new_positional_argument ''x'' Integer 1 []]\<rparr>) \<and>
   add_option named_x [''-x'', ''--x''] ''x'' Bool 0 [] =
     Ok (named_x\<lparr>optional_parsers := [help_option,
                                        new_optional_argument [''-x'', ''--x''] ''x'' Bool 0 []]\<rparr>) \<and>
   add_option1 named_x ''-x'' ''x'' Bool 0 [] =
     Ok (named_x\<lparr>optional_parsers := [help_option, new_optional_argument [''-x''] ''x'' Bool 0 []]\<rparr>)"
  using named_x_registration by (simp add: named_x_def registration_defs)

text \<open>
  C2, as the code has it: \<open>add_argument\<close> throws exactly when the name is \<open>help\<close> or
  \<open>_varargs\<close> is set, which on a parser a program can hold means that a positional
  argument of negative \<open>nargs\<close> is registered; \<open>add_option\<close> throws exactly when the
  name is \<open>help\<close>. Any other call appends the argument, whatever names are registered.
\<close>

theorem registration_fails_on_help_or_varargs_only:
  "((\<exists>e. add_argument p name ty n com = Throw e) \<longleftrightarrow> name = ''help'' \<or> varargs p) \<and>
   ((\<exists>e. add_option p dirs name ty n com = Throw e) \<longleftrightarrow> name = ''help'') \<and>
   ((\<exists>e. add_option1 p dir name ty n com = Throw e) \<longleftrightarrow> name = ''help'') \<and>
   (name \<noteq> ''help'' \<and> \<not> varargs p \<longrightarrow>
      (\<exists>p'. add_argument p name ty n com = Ok p' \<and>
            positional_parsers p' = positional_parsers p @ [new_positional_argument name ty n com] \<and>
            optional_parsers p' = optional_parsers p)) \<and>
   (name \<noteq> ''help'' \<longrightarrow>
      (\<exists>p'. add_option p dirs name ty n com = Ok p' \<and>
            optional_parsers p' = optional_parsers p @ [new_optional_argument dirs name ty n com] \<and>
            positional_parsers p' = positional_parsers p) \<and>
      (\<exists>p'. add_option1 p dir name ty n com = Ok p' \<and>
            optional_parsers p' = optional_parsers p @ [new_optional_argument [dir] name ty n com] \<and>
            positional_parsers p' = positional_parsers p)) \<and>
   (reachable stod_ok (argparse_new app args desc with_help) p \<longrightarrow>
      (varargs p \<longleftrightarrow> (\<exists>a \<in> set (positional_parsers p). nargs a < 0))) \<and>
   (\<forall>e. add_argument p name ty n com = Throw e \<or> add_option p dirs name ty n com = Throw e \<or>
        add_option1 p dir name ty n com = Throw e \<longrightarrow>
      (\<exists>r. e = RegistrationError r))"
proof -
  have "varargs p \<longleftrightarrow> (\<exists>a \<in> set (positional_parsers p). nargs a < 0)"
    if "reachable stod_ok (argparse_new app args desc with_help) p"
    using reachable_registration_inv[OF that registration_inv_new]
    by (simp add: registration_inv_def)
  moreover have "\<exists>r. e = RegistrationError r"
    if "add_argument p name ty n com = Throw e \<or> add_option p dirs name ty n com = Throw e \<or>
        add_option1 p dir name ty n com = Throw e" for e
    using that by (auto simp: add_argument_def add_option_def add_option1_def split: if_splits)
  ultimately show ?thesis
    by (simp add: add_argument_def add_option_def add_option1_def)
qed

theorem registration_fails_on_help_or_varargs_only_witness:
  "''x'' \<noteq> ''help'' \<and> \<not> varargs named_x \<and>
   reachable no_float (argparse_new ''app'' [] [] True) named_x \<and>
   ''x'' \<in> aname ` set (positional_parsers named_x) \<and>
   (\<exists>p'. add_argument named_x ''x'' Bool 0 [] = Ok p' \<and>
         positional_parsers p' = positional_parsers named_x @ [new_positional_argument ''x'' Bool 0 []]) \<and>
   (\<exists>p'. add_option named_x [''-x'', ''--x''] ''x'' Bool 0 [] = Ok p' \<and>
         optional_parsers p' =
           optional_parsers named_x @ [new_optional_argument [''-x'', ''--x''] ''x'' Bool 0 []]) \<and>
   (\<exists>p'. add_option1 named_x ''-x'' ''x'' Bool 0 [] = Ok p' \<and>
         optional_parsers p' = optional_parsers named_x @ [new_optional_argument [''-x''] ''x'' Bool 0 []]) \<and>
   add_argument named_x ''help'' Bool 0 [] = Throw (RegistrationError NamePredefined) \<and>
   (\<exists>r. RegistrationError NamePredefined = RegistrationError r)"
proof -
  have h: "''x'' \<noteq> ''help''" "\<not> varargs named_x" "''x'' \<in> aname ` set (positional_parsers named_x)"
    by (simp_all add: named_x_def registration_defs)
  have t: "add_argument named_x ''help'' Bool 0 [] = Throw (RegistrationError NamePredefined)"
    by (simp add: add_argument_def)
  from registration_fails_on_help_or_varargs_only[where p = named_x and name = "''help''" and ty = Bool
      and n = 0 and com = "[]"] t
  have e: "\<exists>r. RegistrationError NamePredefined = RegistrationError r"
    by blast
  have r: "reachable no_float (argparse_new ''app'' [] [] True) named_x"
    by (rule reach_add_argument[OF reach_new]) (rule named_x_registration)
  from registration_fails_on_help_or_varargs_only[where p = named_x and name = "''x''" and ty = Bool
      and n = 0 and com = "[]" and dirs = "[''-x'', ''--x'']" and dir = "''-x''"
      and stod_ok = no_float and app = "''app''" and args = "[]" and desc = "[]" and with_help = True]
    h r t e
  show ?thesis by blast
qed


end
